theory Spec2Isabelle
  imports Complex_Main
begin

section \<open>Convex document tables\<close>

text \<open>
  The Convex functions of \<^verbatim>\<open>src/convex\<close> read and write document tables through
  \<^verbatim>\<open>ctx.db\<close>. A table is the list of its documents in insertion order together with
  the counter from which \<^verbatim>\<open>ctx.db.insert\<close> draws the next fresh document id. Every
  \<^verbatim>\<open>throw\<close> of a handler is a value of the type \<open>error\<close>; a mutation that throws
  commits nothing.
\<close>

datatype error =
    AlreadyConfigured string
  | PhoneConfigNotFound string
  | NotUnique
  | DocumentNotFound
  | MustProvideTextOrChunks
  | LibraryError string

record 'a table =
  rows :: "'a list"
  next_id :: nat

definition empty_table :: "'a table" where
  "empty_table = \<lparr>rows = [], next_id = 0\<rparr>"

text \<open>
  \<^verbatim>\<open>.unique()\<close> of a query: the single matching document, null when there is none, and
  an exception when more than one document matches.
\<close>

fun unique :: "'a list \<Rightarrow> error + 'a option" where
  "unique [] = Inr None"
| "unique [x] = Inr (Some x)"
| "unique (x # y # zs) = Inl NotUnique"

subsection \<open>Phone configs\<close>

record phoneConfig =
  pc_id :: nat
  pc_phoneNumber :: string
  pc_organizationId :: string
  pc_jobType :: string
  pc_configJson :: string
  pc_agentId :: "string option"
  pc_isActive :: bool
  pc_createdAt :: nat
  pc_updatedAt :: nat

record pc_create_args =
  ca_phoneNumber :: string
  ca_organizationId :: string
  ca_jobType :: string
  ca_configJson :: string
  ca_agentId :: "string option"

record pc_update_args =
  ua_phoneNumber :: string
  ua_jobType :: "string option"
  ua_configJson :: "string option"
  ua_agentId :: "string option"
  ua_organizationId :: "string option"
  ua_isActive :: "bool option"

text \<open>The index lookup \<^verbatim>\<open>withIndex("by_phone_number", q => q.eq("phoneNumber", p))\<close>.\<close>

definition by_phone_number :: "phoneConfig table \<Rightarrow> string \<Rightarrow> phoneConfig list" where
  "by_phone_number db p = filter (\<lambda>r. pc_phoneNumber r = p) (rows db)"

text \<open>\<^verbatim>\<open>ctx.db.patch(id, updates)\<close> on the document with the given id.\<close>

definition patch :: "('a \<Rightarrow> nat) \<Rightarrow> nat \<Rightarrow> ('a \<Rightarrow> 'a) \<Rightarrow> 'a table \<Rightarrow> 'a table" where
  "patch ident i f db = db\<lparr>rows := map (\<lambda>r. if ident r = i then f r else r) (rows db)\<rparr>"

text \<open>
  \<^verbatim>\<open>phoneConfigs.create\<close>: the result is the pair \<^verbatim>\<open>{ _id, phoneNumber }\<close> and the
  table after the insert; \<open>now\<close> is the value of \<^verbatim>\<open>Date.now()\<close>.
\<close>

definition pc_create ::
  "phoneConfig table \<Rightarrow> pc_create_args \<Rightarrow> nat \<Rightarrow> error + ((nat \<times> string) \<times> phoneConfig table)" where
  "pc_create db args now =
     (case unique (by_phone_number db (ca_phoneNumber args)) of
        Inl e \<Rightarrow> Inl e
      | Inr (Some existing) \<Rightarrow> Inl (AlreadyConfigured (ca_phoneNumber args))
      | Inr None \<Rightarrow>
          Inr ((next_id db, ca_phoneNumber args),
               \<lparr>rows = rows db @
                  [\<lparr>pc_id = next_id db,
                    pc_phoneNumber = ca_phoneNumber args,
                    pc_organizationId = ca_organizationId args,
                    pc_jobType = ca_jobType args,
                    pc_configJson = ca_configJson args,
                    pc_agentId = ca_agentId args,
                    pc_isActive = True,
                    pc_createdAt = now,
                    pc_updatedAt = now\<rparr>],
                next_id = Suc (next_id db)\<rparr>))"

text \<open>
  \<^verbatim>\<open>phoneConfigs.update\<close>: the fields given in the arguments overwrite the document's,
  \<^verbatim>\<open>updatedAt\<close> is always set.
\<close>

definition pc_updates :: "pc_update_args \<Rightarrow> nat \<Rightarrow> phoneConfig \<Rightarrow> phoneConfig" where
  "pc_updates args now r =
     r\<lparr>pc_updatedAt := now,
       pc_jobType := (case ua_jobType args of None \<Rightarrow> pc_jobType r | Some v \<Rightarrow> v),
       pc_configJson := (case ua_configJson args of None \<Rightarrow> pc_configJson r | Some v \<Rightarrow> v),
       pc_agentId := (case ua_agentId args of None \<Rightarrow> pc_agentId r | Some v \<Rightarrow> Some v),
       pc_organizationId :=
         (case ua_organizationId args of None \<Rightarrow> pc_organizationId r | Some v \<Rightarrow> v),
       pc_isActive := (case ua_isActive args of None \<Rightarrow> pc_isActive r | Some v \<Rightarrow> v)\<rparr>"

definition pc_update ::
  "phoneConfig table \<Rightarrow> pc_update_args \<Rightarrow> nat \<Rightarrow> error + phoneConfig table" where
  "pc_update db args now =
     (case unique (by_phone_number db (ua_phoneNumber args)) of
        Inl e \<Rightarrow> Inl e
      | Inr None \<Rightarrow> Inl (PhoneConfigNotFound (ua_phoneNumber args))
      | Inr (Some config) \<Rightarrow> Inr (patch pc_id (pc_id config) (pc_updates args now) db))"

text \<open>\<^verbatim>\<open>phoneConfigs.deactivate\<close>: the soft delete.\<close>

definition pc_deactivate ::
  "phoneConfig table \<Rightarrow> string \<Rightarrow> nat \<Rightarrow> error + phoneConfig table" where
  "pc_deactivate db p now =
     (case unique (by_phone_number db p) of
        Inl e \<Rightarrow> Inl e
      | Inr None \<Rightarrow> Inl (PhoneConfigNotFound p)
      | Inr (Some config) \<Rightarrow>
          Inr (patch pc_id (pc_id config) (\<lambda>r. r\<lparr>pc_isActive := False, pc_updatedAt := now\<rparr>) db))"

text \<open>\<^verbatim>\<open>phoneConfigs.getByPhoneNumber\<close>: the active config of a number.\<close>

definition getByPhoneNumber :: "phoneConfig table \<Rightarrow> string \<Rightarrow> error + phoneConfig option" where
  "getByPhoneNumber db p = unique (filter (\<lambda>r. pc_isActive r = True) (by_phone_number db p))"

text \<open>The phone numbers, and below the slugs, of a table in row order.\<close>

definition pc_phones :: "phoneConfig table \<Rightarrow> string list" where
  "pc_phones db = map pc_phoneNumber (rows db)"

text \<open>
  The mutations of the file are the only writers of the table. A history is a list of
  mutation calls, each with the clock value it read; a call that throws leaves the table
  as it was.
\<close>

datatype pc_op =
    PcCreate pc_create_args nat
  | PcUpdate pc_update_args nat
  | PcDeactivate string nat

fun pc_apply :: "phoneConfig table \<Rightarrow> pc_op \<Rightarrow> phoneConfig table" where
  "pc_apply db (PcCreate args now) =
     (case pc_create db args now of Inl e \<Rightarrow> db | Inr (res, db') \<Rightarrow> db')"
| "pc_apply db (PcUpdate args now) =
     (case pc_update db args now of Inl e \<Rightarrow> db | Inr db' \<Rightarrow> db')"
| "pc_apply db (PcDeactivate p now) =
     (case pc_deactivate db p now of Inl e \<Rightarrow> db | Inr db' \<Rightarrow> db')"

definition pc_run :: "pc_op list \<Rightarrow> phoneConfig table" where
  "pc_run ops = foldl pc_apply empty_table ops"

subsection \<open>Organizations\<close>

datatype org_status = Active | Inactive

record organization =
  org_id :: nat
  org_slug :: string
  org_name :: string
  org_billingCustomerId :: "string option"
  org_status :: org_status
  org_config :: "string option"
  org_createdAt :: nat

record org_create_args =
  oa_slug :: string
  oa_name :: string
  oa_billingCustomerId :: "string option"
  oa_status :: org_status
  oa_config :: "string option"

definition by_slug :: "organization table \<Rightarrow> string \<Rightarrow> organization list" where
  "by_slug db s = filter (\<lambda>r. org_slug r = s) (rows db)"

text \<open>\<^verbatim>\<open>organizations.create\<close>: returns the id, of the existing document when there is one.\<close>

definition org_create ::
  "organization table \<Rightarrow> org_create_args \<Rightarrow> nat \<Rightarrow> error + (nat \<times> organization table)" where
  "org_create db args now =
     (case unique (by_slug db (oa_slug args)) of
        Inl e \<Rightarrow> Inl e
      | Inr (Some existing) \<Rightarrow> Inr (org_id existing, db)
      | Inr None \<Rightarrow>
          Inr (next_id db,
               \<lparr>rows = rows db @
                  [\<lparr>org_id = next_id db,
                    org_slug = oa_slug args,
                    org_name = oa_name args,
                    org_billingCustomerId = oa_billingCustomerId args,
                    org_status = oa_status args,
                    org_config = oa_config args,
                    org_createdAt = now\<rparr>],
                next_id = Suc (next_id db)\<rparr>))"

text \<open>
  \<^verbatim>\<open>organizations.updateConfig\<close>: \<^verbatim>\<open>ctx.db.patch\<close> throws when no document has the id.
\<close>

definition org_updateConfig ::
  "organization table \<Rightarrow> nat \<Rightarrow> string \<Rightarrow> error + organization table" where
  "org_updateConfig db i c =
     (if \<exists>r \<in> set (rows db). org_id r = i
      then Inr (patch org_id i (\<lambda>r. r\<lparr>org_config := Some c\<rparr>) db)
      else Inl DocumentNotFound)"

definition org_slugs :: "organization table \<Rightarrow> string list" where
  "org_slugs db = map org_slug (rows db)"

datatype org_op =
    OrgCreate org_create_args nat
  | OrgUpdateConfig nat string

fun org_apply :: "organization table \<Rightarrow> org_op \<Rightarrow> organization table" where
  "org_apply db (OrgCreate args now) =
     (case org_create db args now of Inl e \<Rightarrow> db | Inr (i, db') \<Rightarrow> db')"
| "org_apply db (OrgUpdateConfig i c) =
     (case org_updateConfig db i c of Inl e \<Rightarrow> db | Inr db' \<Rightarrow> db')"

definition org_run :: "org_op list \<Rightarrow> organization table" where
  "org_run ops = foldl org_apply empty_table ops"

section \<open>The knowledge base: \<^verbatim>\<open>src/convex/rag.ts\<close>\<close>

text \<open>
  The actions of \<^verbatim>\<open>rag.ts\<close> wrap the component \<^verbatim>\<open>@convex-dev/rag\<close>, which is not
  part of the repository. Its operation \<^verbatim>\<open>rag.add\<close> is a parameter of the handler
  below: \<open>rag_add\<close> takes the knowledge base and returns it updated, or throws.
\<close>

datatype entry_status = Ready | Pending | Replaced

datatype content = Text string | Chunks "string list"

record add_args =
  aa_namespace :: string
  aa_key :: "string option"
  aa_title :: "string option"
  aa_content :: content

record add_result =
  ar_entryId :: string
  ar_status :: entry_status

record ingest_args =
  ia_namespace :: string
  ia_key :: "string option"
  ia_text :: "string option"
  ia_chunks :: "string list option"
  ia_title :: "string option"

record ingest_result =
  ir_entryId :: string
  ir_status :: entry_status

text \<open>
  JavaScript truthiness of the two optional arguments: \<^verbatim>\<open>args.text\<close> is falsy when it
  is undefined or the empty string, \<^verbatim>\<open>args.chunks\<close> only when it is undefined (an
  empty array is truthy).
\<close>

definition truthy_text :: "string option \<Rightarrow> bool" where
  "truthy_text t = (case t of None \<Rightarrow> False | Some s \<Rightarrow> s \<noteq> [])"

definition truthy_chunks :: "string list option \<Rightarrow> bool" where
  "truthy_chunks c = (case c of None \<Rightarrow> False | Some cs \<Rightarrow> True)"

text \<open>
  The argument of the one call of \<^verbatim>\<open>rag.add\<close>: \<^verbatim>\<open>commonArgs\<close> with the text when it
  is truthy, with the chunks otherwise (\<^verbatim>\<open>args.chunks!\<close>, defined there by the guard).
\<close>

definition ingest_call :: "ingest_args \<Rightarrow> add_args" where
  "ingest_call args =
     \<lparr>aa_namespace = ia_namespace args,
      aa_key = ia_key args,
      aa_title = ia_title args,
      aa_content = (if truthy_text (ia_text args) then Text (the (ia_text args))
                    else Chunks (the (ia_chunks args)))\<rparr>"

definition ingest ::
  "('kb \<Rightarrow> add_args \<Rightarrow> (error + add_result) \<times> 'kb) \<Rightarrow> 'kb \<Rightarrow> ingest_args
     \<Rightarrow> (error + ingest_result) \<times> 'kb" where
  "ingest rag_add kb args =
     (if \<not> truthy_text (ia_text args) \<and> \<not> truthy_chunks (ia_chunks args)
      then (Inl MustProvideTextOrChunks, kb)
      else (case rag_add kb (ingest_call args) of
              (Inl e, kb') \<Rightarrow> (Inl e, kb')
            | (Inr result, kb') \<Rightarrow>
                (Inr \<lparr>ir_entryId = ar_entryId result, ir_status = ar_status result\<rparr>, kb')))"

text \<open>
  A stand-in for \<^verbatim>\<open>rag.add\<close>, to run the handler on concrete inputs: the
  knowledge base is the list of the
  arguments it was called with, and the id of a new entry has as many letters as the
  knowledge base then has entries.
\<close>

definition list_add :: "add_args list \<Rightarrow> add_args \<Rightarrow> (error + add_result) \<times> add_args list" where
  "list_add kb a =
     (Inr \<lparr>ar_entryId = replicate (Suc (length kb)) CHR ''e'', ar_status = Ready\<rparr>, kb @ [a])"

section \<open>The suppression cascade of the implementation plan\<close>

text \<open>
  The cascade that answers an utterance from cached patterns before the generative
  provider is called exists in the repository only as a plan
  (\<^verbatim>\<open>src/SPL_IMPLEMENTATION_PLAN.md\<close>); no source file implements it. The definitions of
  this section are therefore modelled from the specification, component by component. The
  learning write and the feedback loop are not modelled; the observability fields of a
  decision (cost, latency) are left out.
\<close>

text \<open>
  Modelled from the spec: an embedding vector, a sequence of numbers of a fixed length; the
  embedding code of the plan is missing.
\<close>

type_synonym vec = "real list"

text \<open>
  Modelled from the spec: the response type of a pattern, static text or a structured
  action; the pattern table of the plan is missing.
\<close>

datatype response_type = StaticText | StructuredAction

text \<open>
  Modelled from the spec: the Pattern record of the data model. The pattern store of the
  plan (\<^verbatim>\<open>convex/spl_patterns.ts\<close>) is missing. Each example query is paired with its
  precomputed embedding vector; \<open>p_createdAt\<close> is the creation time the tie-break of the
  matchers refers to.
\<close>

record pattern =
  p_key :: string
  p_namespace :: string
  p_keywords :: "string list"
  p_exampleQueries :: "(string \<times> vec) list"
  p_cachedResponse :: string
  p_responseType :: response_type
  p_domain :: string
  p_isActive :: bool
  p_hitCount :: nat
  p_successRate :: real
  p_confidence :: real
  p_createdAt :: nat

text \<open>
  Modelled from the spec: the configuration surface consumed by the cascade, field by
  field. The service configuration of the plan is missing.
\<close>

record spl_config =
  enabled :: bool
  fuzzyThreshold :: real
  semanticThreshold :: real
  learningConfidenceThreshold :: real
  minValidationLength :: int
  maxValidationLength :: int
  blocklist :: "string list"
  rolloutPercentage :: int
  rolloutAllowlist :: "string list"
  rolloutDenylist :: "string list"
  deactivationSuccessFloor :: real
  deactivationMinSamples :: nat

text \<open>Modelled from the spec: the error taxonomy; the service of the plan is missing.\<close>

datatype spl_error = ValidationRejected | ProviderUnavailable | FallbackFailed | PersistenceFailed

text \<open>
  Modelled from the spec: the consumed clients, missing from the sources. \<open>embed\<close> is the
  Embedding Client (an error stands for a failure or a timeout), \<open>respond\<close> the Generative
  Fallback Client, which returns the response text and a confidence. \<open>cosine\<close> is the
  cosine similarity of two vectors and \<open>ratio\<close> the edit-distance-based similarity of two
  strings, both as computed by the host's numeric library. \<open>bucket\<close> is the deterministic
  hash of the rollout controller, applied to the tenant and the session identifier; the
  specification does not fix the hash function.
\<close>

record clients =
  embed :: "string \<Rightarrow> spl_error + vec"
  respond :: "string \<Rightarrow> string \<Rightarrow> spl_error + (string \<times> real)"
  cosine :: "vec \<Rightarrow> vec \<Rightarrow> real"
  ratio :: "string \<Rightarrow> string \<Rightarrow> real"
  bucket :: "string \<Rightarrow> string \<Rightarrow> nat"

text \<open>
  Modelled from the spec: every call of an external provider is recorded in the order it
  is made, so that a property can say which providers a request invoked. The missing
  service calls its providers directly.
\<close>

datatype provider_call = EmbedCall string | FallbackCall string string

text \<open>
  Modelled from the spec: the call of the Embedding Client by the missing service, with its
  record.
\<close>

definition call_embed ::
  "clients \<Rightarrow> string \<Rightarrow> provider_call list \<Rightarrow> (spl_error + vec) \<times> provider_call list" where
  "call_embed cl utt calls = (embed cl utt, calls @ [EmbedCall utt])"

text \<open>
  Modelled from the spec: the call of the Generative Fallback Client by the missing service,
  with its record.
\<close>

definition call_fallback ::
  "clients \<Rightarrow> string \<Rightarrow> string \<Rightarrow> provider_call list
     \<Rightarrow> (spl_error + (string \<times> real)) \<times> provider_call list" where
  "call_fallback cl utt ctx calls = (respond cl utt ctx, calls @ [FallbackCall utt ctx])"

subsection \<open>Pattern store client\<close>

text \<open>
  Modelled from the spec: \<^verbatim>\<open>getActivePatterns(namespace)\<close> of the missing Pattern Store
  Client, the active patterns of one namespace in store order.
\<close>

definition getActivePatterns :: "string \<Rightarrow> pattern list \<Rightarrow> pattern list" where
  "getActivePatterns ns store = filter (\<lambda>p. p_namespace p = ns \<and> p_isActive p) store"

text \<open>
  Modelled from the spec: \<^verbatim>\<open>incrementHitCount(patternId)\<close> of the missing Pattern Store
  Client. A pattern is identified by its namespace and its key, which is unique within
  the namespace.
\<close>

definition incrementHitCount :: "string \<times> string \<Rightarrow> pattern list \<Rightarrow> pattern list" where
  "incrementHitCount pid store =
     map (\<lambda>p. if (p_namespace p, p_key p) = pid then p\<lparr>p_hitCount := Suc (p_hitCount p)\<rparr> else p)
       store"

subsection \<open>Stage 0: the validator\<close>

text \<open>
  Modelled from the spec: the four reasons of a rejection by the missing Validator.
\<close>

datatype reject_reason = TooShort | TooLong | Blocked | RateLimited

text \<open>
  Modelled from the spec: the result of the missing Validator, \<^verbatim>\<open>pass | reject(reason)\<close>.
\<close>

datatype validation = Pass | Reject reject_reason

text \<open>
  Modelled from the spec: the containment test of the validator's blocklist and of the
  lexical matcher's first pass (the missing service's substring test): \<open>contains u k\<close>
  holds when \<open>k\<close> occurs in \<open>u\<close> as a contiguous substring.
\<close>

fun contains :: "string \<Rightarrow> string \<Rightarrow> bool" where
  "contains [] k = (k = [])"
| "contains (c # cs) k = (take (length k) (c # cs) = k \<or> contains cs k)"

text \<open>
  Modelled from the spec: \<^verbatim>\<open>validate(utterance, tenantConfig)\<close> of the missing
  Validator. The checks run in the order of the specification: too short, too long,
  blocklisted, rate limited. The rate limiter is a fixed-window counter, given as the
  number of requests still allowed in the window; a request that passes consumes one.
\<close>

definition validate :: "string \<Rightarrow> spl_config \<Rightarrow> nat \<Rightarrow> validation \<times> nat" where
  "validate utt cfg limiter =
     (if int (length utt) < minValidationLength cfg then (Reject TooShort, limiter)
      else if maxValidationLength cfg < int (length utt) then (Reject TooLong, limiter)
      else if list_ex (contains utt) (blocklist cfg) then (Reject Blocked, limiter)
      else if limiter = 0 then (Reject RateLimited, limiter)
      else (Pass, limiter - 1))"

text \<open>
  Modelled from the spec: the zero-cost canned response of a rejection, a short, generic
  clarification prompt. The specification does not fix its wording.
\<close>

definition clarification_prompt :: string where
  "clarification_prompt = ''Sorry, could you say that again?''"

subsection \<open>Stages 1a and 1b: the matchers\<close>

text \<open>
  Modelled from the spec: the matching techniques a decision of the missing service can
  name.
\<close>

datatype match_method = ValidationReject | Exact | Fuzzy | Embedding | Fallback | Disabled

text \<open>
  Modelled from the spec: the tie-break shared by the two matchers of the missing service.
  A candidate is a pattern with the score of one of its phrases. One candidate outranks
  another when its score is higher, then when its pattern has the higher hit count, then
  when its pattern was created more recently.
\<close>

definition outranks :: "pattern \<times> real \<Rightarrow> pattern \<times> real \<Rightarrow> bool" where
  "outranks a b =
     (snd b < snd a
      \<or> (snd a = snd b
          \<and> (p_hitCount (fst b) < p_hitCount (fst a)
              \<or> (p_hitCount (fst a) = p_hitCount (fst b)
                  \<and> p_createdAt (fst b) < p_createdAt (fst a)))))"

text \<open>
  Modelled from the spec: the selection of the single best candidate by the matchers of the
  missing service, a candidate that no other outranks, the earliest of them in list order.
\<close>

fun best_candidate :: "(pattern \<times> real) list \<Rightarrow> (pattern \<times> real) option" where
  "best_candidate [] = None"
| "best_candidate (c # cs) =
     (case best_candidate cs of
        None \<Rightarrow> Some c
      | Some b \<Rightarrow> if outranks b c then Some b else Some c)"

text \<open>
  Modelled from the spec: the result of the missing Lexical Matcher,
  \<^verbatim>\<open>hit(pattern, score) | miss\<close>; a hit also names the pass that produced it.
\<close>

datatype lexical_result = LexHit pattern real match_method | LexMiss

text \<open>
  Modelled from the spec: the first pass of the missing Lexical Matcher, containment of a
  keyword in the utterance; the first pattern with a contained keyword wins.
\<close>

definition exact_pass :: "string \<Rightarrow> pattern list \<Rightarrow> pattern option" where
  "exact_pass utt pats = find (\<lambda>p. list_ex (contains utt) (p_keywords p)) pats"

text \<open>
  Modelled from the spec: the candidates of the second pass of the missing Lexical Matcher.
  Every keyword and every example phrase of every pattern is scored against the utterance.
\<close>

definition fuzzy_candidates :: "(string \<Rightarrow> string \<Rightarrow> real) \<Rightarrow> string \<Rightarrow> pattern list
    \<Rightarrow> (pattern \<times> real) list" where
  "fuzzy_candidates sim utt pats =
     concat (map (\<lambda>p. map (\<lambda>q. (p, sim utt q)) (p_keywords p @ map fst (p_exampleQueries p)))
               pats)"

text \<open>
  Modelled from the spec: the second pass of the missing Lexical Matcher; the best
  candidate wins when its score is above the fuzzy-acceptance threshold.
\<close>

definition fuzzy_pass :: "spl_config \<Rightarrow> (string \<Rightarrow> string \<Rightarrow> real) \<Rightarrow> string \<Rightarrow> pattern list
    \<Rightarrow> (pattern \<times> real) option" where
  "fuzzy_pass cfg sim utt pats =
     (case best_candidate (fuzzy_candidates sim utt pats) of
        None \<Rightarrow> None
      | Some (p, s) \<Rightarrow> if fuzzyThreshold cfg < s then Some (p, s) else None)"

text \<open>
  Modelled from the spec: \<^verbatim>\<open>match(utterance, activePatternsInNamespace)\<close> of the missing
  Lexical Matcher (Stage 1a). An exact hit is scored 1.
\<close>

definition lexical_match :: "spl_config \<Rightarrow> (string \<Rightarrow> string \<Rightarrow> real) \<Rightarrow> string \<Rightarrow> pattern list
    \<Rightarrow> lexical_result" where
  "lexical_match cfg sim utt pats =
     (case exact_pass utt pats of
        Some p \<Rightarrow> LexHit p 1 Exact
      | None \<Rightarrow>
          (case fuzzy_pass cfg sim utt pats of
             Some (p, s) \<Rightarrow> LexHit p s Fuzzy
           | None \<Rightarrow> LexMiss))"

text \<open>
  Modelled from the spec: the result of the missing Semantic Matcher,
  \<^verbatim>\<open>hit(pattern, score) | miss | providerError\<close>.
\<close>

datatype semantic_result = SemHit pattern real | SemMiss | ProviderError

text \<open>
  Modelled from the spec: the candidates of the missing Semantic Matcher, the similarity of
  the utterance's vector to every example vector of every pattern.
\<close>

definition semantic_candidates :: "(vec \<Rightarrow> vec \<Rightarrow> real) \<Rightarrow> vec \<Rightarrow> pattern list
    \<Rightarrow> (pattern \<times> real) list" where
  "semantic_candidates csim v pats =
     concat (map (\<lambda>p. map (\<lambda>q. (p, csim v (snd q))) (p_exampleQueries p)) pats)"

text \<open>
  Modelled from the spec: \<^verbatim>\<open>match(utterance, activePatternsInNamespace)\<close> of the missing
  Semantic Matcher (Stage 1b), given the outcome of the embedding call. The best pair of a
  pattern and an example vector is a hit when its score meets or exceeds the
  semantic-acceptance threshold; a failed embedding is a provider error.
\<close>

definition semantic_match :: "spl_config \<Rightarrow> (vec \<Rightarrow> vec \<Rightarrow> real) \<Rightarrow> spl_error + vec \<Rightarrow> pattern list
    \<Rightarrow> semantic_result" where
  "semantic_match cfg csim emb pats =
     (case emb of
        Inl e \<Rightarrow> ProviderError
      | Inr v \<Rightarrow>
          (case best_candidate (semantic_candidates csim v pats) of
             None \<Rightarrow> SemMiss
           | Some (p, s) \<Rightarrow> if semanticThreshold cfg \<le> s then SemHit p s else SemMiss))"

subsection \<open>The decision cascade\<close>

text \<open>Modelled from the spec: the stages of the missing orchestrator.\<close>

datatype stage = Stage0 | Stage1a | Stage1b | Stage2

text \<open>Modelled from the spec: the Decision record; the missing service constructs it.\<close>

record decision =
  d_shouldEscalate :: bool
  d_response :: "string option"
  d_stage :: stage
  d_method :: match_method
  d_matchScore :: real

text \<open>
  Modelled from the spec: what one request leaves behind, for the missing orchestrator: the
  decision, the reply that reaches the caller (the canned, cached or generated text, or the
  error of a failed fallback), the provider calls made, the rate limiter and the pattern
  store after the request.
\<close>

record outcome =
  o_decision :: decision
  o_reply :: "spl_error + string"
  o_calls :: "provider_call list"
  o_limiter :: nat
  o_store :: "pattern list"

text \<open>
  Modelled from the spec: \<^verbatim>\<open>escalate(utterance, context)\<close> of the missing Escalation
  Controller (Stage 2), without its learning write: the fallback provider is invoked, and
  its failure is the one error that reaches the caller.
\<close>

definition escalate :: "clients \<Rightarrow> string \<Rightarrow> string \<Rightarrow> provider_call list
    \<Rightarrow> (spl_error + string) \<times> provider_call list" where
  "escalate cl utt ctx calls =
     (case call_fallback cl utt ctx calls of
        (Inl e, calls') \<Rightarrow> (Inl FallbackFailed, calls')
      | (Inr (generated, confidence), calls') \<Rightarrow> (Inr generated, calls'))"

text \<open>
  Modelled from the spec: Stage 1b of the missing orchestrator, the one embedding call
  followed by the semantic matcher.
\<close>

definition stage1b :: "spl_config \<Rightarrow> clients \<Rightarrow> string \<Rightarrow> pattern list \<Rightarrow> provider_call list
    \<Rightarrow> semantic_result \<times> provider_call list" where
  "stage1b cfg cl utt active calls =
     (case call_embed cl utt calls of
        (emb, calls') \<Rightarrow> (semantic_match cfg (cosine cl) emb active, calls'))"

text \<open>
  Modelled from the spec: the state machine of the missing orchestrator for a tenant that
  takes part. It runs Stage 0, Stage 1a, Stage 1b and Stage 2 in this order and stops at
  the first rejection or hit; the snapshot of the active patterns of the namespace is taken
  once. A hit increments the hit count of its pattern. A miss and a provider error of
  Stage 1b both lead to Stage 2, whose decision asks for the fallback provider.
\<close>

definition run_stages :: "spl_config \<Rightarrow> clients \<Rightarrow> pattern list \<Rightarrow> nat \<Rightarrow> string \<Rightarrow> string \<Rightarrow> string
    \<Rightarrow> outcome" where
  "run_stages cfg cl store limiter ns utt ctx =
     (case validate utt cfg limiter of
        (Reject reason, limiter') \<Rightarrow>
          \<lparr>o_decision = \<lparr>d_shouldEscalate = False, d_response = Some clarification_prompt,
                         d_stage = Stage0, d_method = ValidationReject, d_matchScore = 0\<rparr>,
           o_reply = Inr clarification_prompt, o_calls = [], o_limiter = limiter',
           o_store = store\<rparr>
      | (Pass, limiter') \<Rightarrow>
          let active = getActivePatterns ns store in
          (case lexical_match cfg (ratio cl) utt active of
             LexHit p s m \<Rightarrow>
               \<lparr>o_decision = \<lparr>d_shouldEscalate = False, d_response = Some (p_cachedResponse p),
                              d_stage = Stage1a, d_method = m, d_matchScore = s\<rparr>,
                o_reply = Inr (p_cachedResponse p), o_calls = [], o_limiter = limiter',
                o_store = incrementHitCount (p_namespace p, p_key p) store\<rparr>
           | LexMiss \<Rightarrow>
               (case stage1b cfg cl utt active [] of
                  (SemHit p s, calls) \<Rightarrow>
                    \<lparr>o_decision = \<lparr>d_shouldEscalate = False, d_response = Some (p_cachedResponse p),
                                   d_stage = Stage1b, d_method = Embedding, d_matchScore = s\<rparr>,
                     o_reply = Inr (p_cachedResponse p), o_calls = calls, o_limiter = limiter',
                     o_store = incrementHitCount (p_namespace p, p_key p) store\<rparr>
                | (miss, calls) \<Rightarrow>
                    (case escalate cl utt ctx calls of
                       (reply, calls') \<Rightarrow>
                         \<lparr>o_decision = \<lparr>d_shouldEscalate = True, d_response = None,
                                        d_stage = Stage2, d_method = Fallback, d_matchScore = 0\<rparr>,
                          o_reply = reply, o_calls = calls', o_limiter = limiter',
                          o_store = store\<rparr>))))"

text \<open>
  Modelled from the spec: \<^verbatim>\<open>participates(tenantId, sessionId, rolloutConfig)\<close> of the
  missing Rollout Controller. The hash of the identifiers falls into one of a hundred
  buckets and is compared with the configured percentage; the lists override the
  percentage, and the denylist is consulted first.
\<close>

definition participates :: "(string \<Rightarrow> string \<Rightarrow> nat) \<Rightarrow> string \<Rightarrow> string \<Rightarrow> spl_config \<Rightarrow> bool" where
  "participates hash tenant session cfg =
     (if tenant \<in> set (rolloutDenylist cfg) then False
      else if tenant \<in> set (rolloutAllowlist cfg) then True
      else int (hash tenant session mod 100) < rolloutPercentage cfg)"

text \<open>
  Modelled from the spec: the Decision Cascade, the missing orchestrator, from its entry.
  The emergency switch and the rollout are tested before anything else, as in the
  \<^verbatim>\<open>process_utterance\<close> fragment of the plan: when the cascade is disabled or the tenant
  is excluded from the rollout, the request goes straight to Stage 2 with the method
  disabled, and neither the validator nor a matcher runs. Otherwise the stages run.
\<close>

definition cascade :: "spl_config \<Rightarrow> clients \<Rightarrow> pattern list \<Rightarrow> nat \<Rightarrow> string \<Rightarrow> string \<Rightarrow> string
    \<Rightarrow> string \<Rightarrow> outcome" where
  "cascade cfg cl store limiter ns session utt ctx =
     (if \<not> enabled cfg \<or> \<not> participates (bucket cl) ns session cfg
      then (case escalate cl utt ctx [] of
              (reply, calls) \<Rightarrow>
                \<lparr>o_decision = \<lparr>d_shouldEscalate = True, d_response = None,
                               d_stage = Stage2, d_method = Disabled, d_matchScore = 0\<rparr>,
                 o_reply = reply, o_calls = calls, o_limiter = limiter, o_store = store\<rparr>)
      else run_stages cfg cl store limiter ns utt ctx)"

subsection \<open>Seeded patterns\<close>

text \<open>
  Modelled from the spec: a pattern as the bootstrap routine of the plan seeds it (the
  script is missing): static text, active, no hits yet, a success rate and a confidence
  of 1.
\<close>

definition seed_pattern ::
  "string \<Rightarrow> string \<Rightarrow> string list \<Rightarrow> (string \<times> vec) list \<Rightarrow> string \<Rightarrow> nat \<Rightarrow> pattern" where
  "seed_pattern ns key kws examples answer created =
     \<lparr>p_key = key, p_namespace = ns, p_keywords = kws, p_exampleQueries = examples,
      p_cachedResponse = answer, p_responseType = StaticText, p_domain = ''hospitality'',
      p_isActive = True, p_hitCount = 0, p_successRate = 1, p_confidence = 1,
      p_createdAt = created\<rparr>"

section \<open>Properties of the document tables\<close>

subsection \<open>Lookups by a unique key\<close>

lemma filter_key_distinct:
  "distinct (map f xs) \<Longrightarrow>
   filter (\<lambda>r. f r = p) xs = (case find (\<lambda>r. f r = p) xs of None \<Rightarrow> [] | Some x \<Rightarrow> [x])"
proof (induction xs)
  case Nil
  then show ?case by simp
next
  case (Cons a xs)
  show ?case
  proof (cases "f a = p")
    case True
    from Cons.prems have "f a \<notin> f ` set xs" by simp
    with True have "\<forall>x\<in>set xs. f x \<noteq> p" by (metis imageI)
    then have "filter (\<lambda>r. f r = p) xs = []"
      by (simp add: filter_empty_conv)
    with True show ?thesis by simp
  next
    case False
    with Cons show ?thesis by simp
  qed
qed

lemma find_key_None: "(find (\<lambda>r. f r = p) xs = None) = (p \<notin> f ` set xs)"
  by (auto simp: find_None_iff)

lemma find_key_Some: "find (\<lambda>r. f r = p) xs = Some x \<Longrightarrow> x \<in> set xs \<and> f x = p"
  by (auto simp: find_Some_iff)

lemma unique_None_iff: "(unique xs = Inr None) = (xs = [])"
  by (cases xs rule: unique.cases) auto

lemma unique_key_distinct:
  "distinct (map f xs) \<Longrightarrow>
   unique (filter (\<lambda>r. f r = p) xs) = Inr (find (\<lambda>r. f r = p) xs)"
  by (simp add: filter_key_distinct split: option.split)

lemma rows_patch: "rows (patch ident i g db) = map (\<lambda>r. if ident r = i then g r else r) (rows db)"
  by (simp add: patch_def)

lemma pc_create_phones:
  assumes "pc_create db args now = Inr (res, db')"
  shows "pc_phones db' = pc_phones db @ [ca_phoneNumber args]"
    and "ca_phoneNumber args \<notin> set (pc_phones db)"
proof -
  from assms have u: "unique (by_phone_number db (ca_phoneNumber args)) = Inr None"
    by (auto simp: pc_create_def split: sum.splits option.splits)
  then have "by_phone_number db (ca_phoneNumber args) = []"
    by (simp add: unique_None_iff)
  then show "ca_phoneNumber args \<notin> set (pc_phones db)"
    by (auto simp: by_phone_number_def pc_phones_def filter_empty_conv)
  from assms u show "pc_phones db' = pc_phones db @ [ca_phoneNumber args]"
    by (auto simp: pc_create_def pc_phones_def)
qed

lemma pc_update_phones: "pc_update db args now = Inr db' \<Longrightarrow> pc_phones db' = pc_phones db"
  by (auto simp: pc_update_def pc_phones_def pc_updates_def rows_patch
      split: sum.splits option.splits)

lemma pc_deactivate_phones: "pc_deactivate db p now = Inr db' \<Longrightarrow> pc_phones db' = pc_phones db"
  by (auto simp: pc_deactivate_def pc_phones_def rows_patch split: sum.splits option.splits)

lemma pc_apply_distinct: "distinct (pc_phones db) \<Longrightarrow> distinct (pc_phones (pc_apply db x))"
proof (cases x)
  case (PcCreate args now)
  assume d: "distinct (pc_phones db)"
  show ?thesis
  proof (cases "pc_create db args now")
    case (Inl e)
    with PcCreate d show ?thesis by simp
  next
    case (Inr a)
    obtain res db' where a: "a = (res, db')" by (cases a)
    with Inr pc_create_phones[of db args now res db'] PcCreate d show ?thesis by simp
  qed
next
  case (PcUpdate args now)
  assume "distinct (pc_phones db)"
  with PcUpdate show ?thesis
    by (cases "pc_update db args now") (simp_all add: pc_update_phones)
next
  case (PcDeactivate p now)
  assume "distinct (pc_phones db)"
  with PcDeactivate show ?thesis
    by (cases "pc_deactivate db p now") (simp_all add: pc_deactivate_phones)
qed

lemma pc_apply_mono: "set (pc_phones db) \<subseteq> set (pc_phones (pc_apply db x))"
proof (cases x)
  case (PcCreate args now)
  show ?thesis
  proof (cases "pc_create db args now")
    case (Inl e)
    with PcCreate show ?thesis by simp
  next
    case (Inr a)
    obtain res db' where a: "a = (res, db')" by (cases a)
    with Inr pc_create_phones(1)[of db args now res db'] PcCreate show ?thesis by auto
  qed
next
  case (PcUpdate args now)
  then show ?thesis
    by (cases "pc_update db args now") (simp_all add: pc_update_phones)
next
  case (PcDeactivate p now)
  then show ?thesis
    by (cases "pc_deactivate db p now") (simp_all add: pc_deactivate_phones)
qed

lemma pc_foldl_distinct:
  "distinct (pc_phones db) \<Longrightarrow> distinct (pc_phones (foldl pc_apply db xs))"
  by (induction xs arbitrary: db) (simp_all add: pc_apply_distinct)

lemma pc_foldl_mono: "set (pc_phones db) \<subseteq> set (pc_phones (foldl pc_apply db xs))"
proof (induction xs arbitrary: db)
  case Nil
  show ?case by simp
next
  case (Cons x xs)
  have "set (pc_phones db) \<subseteq> set (pc_phones (pc_apply db x))" by (rule pc_apply_mono)
  also have "\<dots> \<subseteq> set (pc_phones (foldl pc_apply (pc_apply db x) xs))" by (rule Cons.IH)
  finally show ?case by simp
qed

lemma pc_run_distinct: "distinct (pc_phones (pc_run xs))"
  unfolding pc_run_def by (rule pc_foldl_distinct) (simp add: pc_phones_def empty_table_def)

lemma pc_create_rejects_iff:
  assumes "distinct (pc_phones db)"
  shows "(pc_create db args now = Inl (AlreadyConfigured (ca_phoneNumber args))) =
         (ca_phoneNumber args \<in> set (pc_phones db))"
proof -
  have u: "unique (by_phone_number db (ca_phoneNumber args)) =
        Inr (find (\<lambda>r. pc_phoneNumber r = ca_phoneNumber args) (rows db))"
    unfolding by_phone_number_def using assms
    by (intro unique_key_distinct) (simp add: pc_phones_def)
  show ?thesis
  proof (cases "find (\<lambda>r. pc_phoneNumber r = ca_phoneNumber args) (rows db)")
    case None
    then have "ca_phoneNumber args \<notin> set (pc_phones db)"
      by (simp add: find_key_None pc_phones_def)
    with None u show ?thesis by (simp add: pc_create_def)
  next
    case (Some x)
    from find_key_Some[OF Some] have "pc_phoneNumber x \<in> pc_phoneNumber ` set (rows db)"
      by (intro imageI) simp
    with find_key_Some[OF Some] have "ca_phoneNumber args \<in> set (pc_phones db)"
      by (simp add: pc_phones_def)
    with Some u show ?thesis by (simp add: pc_create_def)
  qed
qed

lemma by_phone_patch:
  assumes d: "distinct (pc_phones db)"
    and f: "find (\<lambda>r. pc_phoneNumber r = p) (rows db) = Some config"
    and g: "\<And>r. pc_phoneNumber (g r) = pc_phoneNumber r"
  shows "by_phone_number (patch pc_id (pc_id config) g db) p = [g config]"
proof -
  have c: "(\<lambda>r. pc_phoneNumber r = p) \<circ> (\<lambda>r. if pc_id r = pc_id config then g r else r)
           = (\<lambda>r. pc_phoneNumber r = p)"
    by (rule ext) (simp add: g)
  have "filter (\<lambda>r. pc_phoneNumber r = p) (rows db) = [config]"
    using d f by (simp add: filter_key_distinct pc_phones_def)
  then show ?thesis
    by (simp add: by_phone_number_def rows_patch filter_map c)
qed

lemma pc_deactivate_result:
  assumes d: "distinct (pc_phones db)" and r: "pc_deactivate db p now = Inr db'"
  shows "\<exists>config. find (\<lambda>r. pc_phoneNumber r = p) (rows db) = Some config
           \<and> by_phone_number db' p = [config\<lparr>pc_isActive := False, pc_updatedAt := now\<rparr>]"
proof -
  have u: "unique (by_phone_number db p) = Inr (find (\<lambda>r. pc_phoneNumber r = p) (rows db))"
    unfolding by_phone_number_def using d
    by (intro unique_key_distinct) (simp add: pc_phones_def)
  from r u obtain config where f: "find (\<lambda>r. pc_phoneNumber r = p) (rows db) = Some config"
    and db': "db' = patch pc_id (pc_id config)
                 (\<lambda>r. r\<lparr>pc_isActive := False, pc_updatedAt := now\<rparr>) db"
    by (auto simp: pc_deactivate_def split: option.splits)
  from by_phone_patch[OF d f, of "\<lambda>r. r\<lparr>pc_isActive := False, pc_updatedAt := now\<rparr>"] f db'
  show ?thesis by simp
qed

lemma pc_update_result:
  assumes d: "distinct (pc_phones db)" and m: "by_phone_number db p = [config]"
    and a: "ua_phoneNumber args = p"
  shows "\<exists>db'. pc_update db args now = Inr db'
           \<and> by_phone_number db' p = [pc_updates args now config]"
proof -
  have fl: "filter (\<lambda>r. pc_phoneNumber r = p) (rows db) =
        (case find (\<lambda>r. pc_phoneNumber r = p) (rows db) of None \<Rightarrow> [] | Some x \<Rightarrow> [x])"
    using d by (intro filter_key_distinct) (simp add: pc_phones_def)
  with m have f: "find (\<lambda>r. pc_phoneNumber r = p) (rows db) = Some config"
    by (auto simp: by_phone_number_def split: option.splits)
  have "by_phone_number (patch pc_id (pc_id config) (pc_updates args now) db) p
          = [pc_updates args now config]"
    by (rule by_phone_patch[OF d f]) (simp add: pc_updates_def)
  with m a show ?thesis by (simp add: pc_update_def)
qed

text \<open>
  Claim C10. In every state of the table that the mutations of the file can produce,
  \<^verbatim>\<open>phoneConfigs.create\<close> throws "already configured" exactly when a row with the phone
  number exists, and the table is then left as it was; with no such row the insert
  succeeds. After \<^verbatim>\<open>deactivate\<close> of a number its row is still there but inactive, so
  that \<^verbatim>\<open>getByPhoneNumber\<close> finds nothing, \<^verbatim>\<open>create\<close> keeps throwing in every later
  state of the table, and \<^verbatim>\<open>update\<close> with \<^verbatim>\<open>isActive: true\<close> makes the config
  active again.
\<close>

theorem pc_create_rejects_existing_number:
  "((pc_create (pc_run ops) args now = Inl (AlreadyConfigured (ca_phoneNumber args)))
      = (\<exists>r \<in> set (rows (pc_run ops)). pc_phoneNumber r = ca_phoneNumber args))
   \<and> ((\<exists>r \<in> set (rows (pc_run ops)). pc_phoneNumber r = ca_phoneNumber args) \<longrightarrow>
        pc_apply (pc_run ops) (PcCreate args now) = pc_run ops)
   \<and> ((\<forall>r \<in> set (rows (pc_run ops)). pc_phoneNumber r \<noteq> ca_phoneNumber args) \<longrightarrow>
        (\<exists>res db'. pc_create (pc_run ops) args now = Inr (res, db')))
   \<and> (pc_deactivate (pc_run ops) (ca_phoneNumber args) t = Inr db' \<longrightarrow>
        getByPhoneNumber db' (ca_phoneNumber args) = Inr None
        \<and> pc_create (foldl pc_apply db' later) args now
            = Inl (AlreadyConfigured (ca_phoneNumber args))
        \<and> (\<exists>db'' r.
              pc_update db'
                \<lparr>ua_phoneNumber = ca_phoneNumber args, ua_jobType = None, ua_configJson = None,
                 ua_agentId = None, ua_organizationId = None, ua_isActive = Some True\<rparr> t'
                = Inr db''
              \<and> getByPhoneNumber db'' (ca_phoneNumber args) = Inr (Some r)
              \<and> pc_isActive r))"
proof -
  let ?db = "pc_run ops" and ?p = "ca_phoneNumber args"
  have d: "distinct (pc_phones ?db)" by (rule pc_run_distinct)
  have mem: "(\<exists>r \<in> set (rows ?db). pc_phoneNumber r = ?p) = (?p \<in> set (pc_phones ?db))"
    by (force simp: pc_phones_def image_iff)
  have iff: "(pc_create ?db args now = Inl (AlreadyConfigured ?p))
      = (\<exists>r \<in> set (rows ?db). pc_phoneNumber r = ?p)"
    using pc_create_rejects_iff[OF d, of args now] mem by simp
  have same: "(\<exists>r \<in> set (rows ?db). pc_phoneNumber r = ?p) \<longrightarrow>
        pc_apply ?db (PcCreate args now) = ?db"
  proof
    assume "\<exists>r \<in> set (rows ?db). pc_phoneNumber r = ?p"
    with iff have "pc_create ?db args now = Inl (AlreadyConfigured ?p)" by blast
    then show "pc_apply ?db (PcCreate args now) = ?db" by simp
  qed
  have fresh: "(\<forall>r \<in> set (rows ?db). pc_phoneNumber r \<noteq> ?p) \<longrightarrow>
        (\<exists>res db'. pc_create ?db args now = Inr (res, db'))"
  proof
    assume "\<forall>r \<in> set (rows ?db). pc_phoneNumber r \<noteq> ?p"
    then have "by_phone_number ?db ?p = []"
      by (simp add: by_phone_number_def filter_empty_conv)
    then show "\<exists>res db'. pc_create ?db args now = Inr (res, db')"
      by (simp add: pc_create_def)
  qed
  have deact: "pc_deactivate ?db ?p t = Inr db' \<longrightarrow>
        getByPhoneNumber db' ?p = Inr None
        \<and> pc_create (foldl pc_apply db' later) args now = Inl (AlreadyConfigured ?p)
        \<and> (\<exists>db'' r.
              pc_update db'
                \<lparr>ua_phoneNumber = ?p, ua_jobType = None, ua_configJson = None,
                 ua_agentId = None, ua_organizationId = None, ua_isActive = Some True\<rparr> t'
                = Inr db''
              \<and> getByPhoneNumber db'' ?p = Inr (Some r)
              \<and> pc_isActive r)"
  proof
    assume r: "pc_deactivate ?db ?p t = Inr db'"
    from pc_deactivate_result[OF d r] obtain config where
      f: "find (\<lambda>r. pc_phoneNumber r = ?p) (rows ?db) = Some config" and
      m: "by_phone_number db' ?p = [config\<lparr>pc_isActive := False, pc_updatedAt := t\<rparr>]"
      by blast
    have d': "distinct (pc_phones db')"
      using d pc_deactivate_phones[OF r] by simp
    have g: "getByPhoneNumber db' ?p = Inr None"
      by (simp add: getByPhoneNumber_def m)
    have "?p \<in> set (pc_phones ?db)"
      using find_key_Some[OF f] mem by blast
    then have "?p \<in> set (pc_phones db')"
      using pc_deactivate_phones[OF r] by simp
    then have "?p \<in> set (pc_phones (foldl pc_apply db' later))"
      using pc_foldl_mono[of db' later] by blast
    then have c: "pc_create (foldl pc_apply db' later) args now = Inl (AlreadyConfigured ?p)"
      using pc_create_rejects_iff[OF pc_foldl_distinct[OF d'], of later args now] by simp
    let ?a = "\<lparr>ua_phoneNumber = ?p, ua_jobType = None, ua_configJson = None,
                 ua_agentId = None, ua_organizationId = None, ua_isActive = Some True\<rparr>"
    from pc_update_result[OF d' m, of ?a t'] obtain db'' where
      u: "pc_update db' ?a t' = Inr db''" and
      m'': "by_phone_number db'' ?p
              = [pc_updates ?a t' (config\<lparr>pc_isActive := False, pc_updatedAt := t\<rparr>)]"
      by auto
    have "getByPhoneNumber db'' ?p
            = Inr (Some (pc_updates ?a t' (config\<lparr>pc_isActive := False, pc_updatedAt := t\<rparr>)))"
      by (simp add: getByPhoneNumber_def m'' pc_updates_def)
    moreover have "pc_isActive (pc_updates ?a t' (config\<lparr>pc_isActive := False, pc_updatedAt := t\<rparr>))"
      by (simp add: pc_updates_def)
    ultimately show "getByPhoneNumber db' ?p = Inr None
        \<and> pc_create (foldl pc_apply db' later) args now = Inl (AlreadyConfigured ?p)
        \<and> (\<exists>db'' r. pc_update db' ?a t' = Inr db''
              \<and> getByPhoneNumber db'' ?p = Inr (Some r) \<and> pc_isActive r)"
      using g c u by blast
  qed
  from iff same fresh deact show ?thesis by blast
qed

text \<open>
  The theorem at a table with one config: the number is deactivated and a second
  \<^verbatim>\<open>create\<close> for it, by another organization, is rejected.
\<close>

theorem pc_create_rejects_existing_number_witness:
  "pc_deactivate
     (pc_run [PcCreate \<lparr>ca_phoneNumber = ''+15550100'', ca_organizationId = ''org1'',
                ca_jobType = ''support'', ca_configJson = ''{}'', ca_agentId = None\<rparr> 10])
     ''+15550100'' 20
     = Inr \<lparr>rows = [\<lparr>pc_id = 0, pc_phoneNumber = ''+15550100'', pc_organizationId = ''org1'',
                pc_jobType = ''support'', pc_configJson = ''{}'', pc_agentId = None,
                pc_isActive = False, pc_createdAt = 10, pc_updatedAt = 20\<rparr>], next_id = 1\<rparr>
   \<and> pc_create
       (foldl pc_apply
          \<lparr>rows = [\<lparr>pc_id = 0, pc_phoneNumber = ''+15550100'', pc_organizationId = ''org1'',
                pc_jobType = ''support'', pc_configJson = ''{}'', pc_agentId = None,
                pc_isActive = False, pc_createdAt = 10, pc_updatedAt = 20\<rparr>], next_id = 1\<rparr> [])
       \<lparr>ca_phoneNumber = ''+15550100'', ca_organizationId = ''org2'',
        ca_jobType = ''sales'', ca_configJson = ''{}'', ca_agentId = None\<rparr> 30
     = Inl (AlreadyConfigured ''+15550100'')
   \<and> pc_create
       (pc_run [PcCreate \<lparr>ca_phoneNumber = ''+15550100'', ca_organizationId = ''org1'',
                ca_jobType = ''support'', ca_configJson = ''{}'', ca_agentId = None\<rparr> 10])
       \<lparr>ca_phoneNumber = ''+15550100'', ca_organizationId = ''org2'',
        ca_jobType = ''sales'', ca_configJson = ''{}'', ca_agentId = None\<rparr> 30
     = Inl (AlreadyConfigured ''+15550100'')"
proof -
  let ?a1 = "\<lparr>ca_phoneNumber = ''+15550100'', ca_organizationId = ''org1'',
                ca_jobType = ''support'', ca_configJson = ''{}'', ca_agentId = None\<rparr>"
  let ?a2 = "\<lparr>ca_phoneNumber = ''+15550100'', ca_organizationId = ''org2'',
        ca_jobType = ''sales'', ca_configJson = ''{}'', ca_agentId = None\<rparr>"
  let ?db' = "\<lparr>rows = [\<lparr>pc_id = 0, pc_phoneNumber = ''+15550100'', pc_organizationId = ''org1'',
                pc_jobType = ''support'', pc_configJson = ''{}'', pc_agentId = None,
                pc_isActive = False, pc_createdAt = 10, pc_updatedAt = 20\<rparr>], next_id = 1\<rparr>"
  have run: "pc_run [PcCreate ?a1 10]
      = \<lparr>rows = [\<lparr>pc_id = 0, pc_phoneNumber = ''+15550100'', pc_organizationId = ''org1'',
                pc_jobType = ''support'', pc_configJson = ''{}'', pc_agentId = None,
                pc_isActive = True, pc_createdAt = 10, pc_updatedAt = 10\<rparr>], next_id = 1\<rparr>"
    by (simp add: pc_run_def pc_create_def by_phone_number_def empty_table_def)
  have h1: "pc_deactivate (pc_run [PcCreate ?a1 10]) (ca_phoneNumber ?a2) 20 = Inr ?db'"
    by (simp add: run pc_deactivate_def by_phone_number_def patch_def)
  have h2: "\<exists>r \<in> set (rows (pc_run [PcCreate ?a1 10])). pc_phoneNumber r = ca_phoneNumber ?a2"
    by (simp add: run)
  note T = pc_create_rejects_existing_number [of "[PcCreate ?a1 10]" ?a2 30 20 ?db' "[]" 40]
  from T h2 have c1: "pc_create (pc_run [PcCreate ?a1 10]) ?a2 30
      = Inl (AlreadyConfigured (ca_phoneNumber ?a2))"
    by blast
  from T h1 have c2: "pc_create (foldl pc_apply ?db' []) ?a2 30
      = Inl (AlreadyConfigured (ca_phoneNumber ?a2))"
    by blast
  from h1 c1 c2 show ?thesis by simp
qed

subsection \<open>Organizations\<close>

lemma find_key_distinct:
  "distinct (map f xs) \<Longrightarrow> x \<in> set xs \<Longrightarrow> find (\<lambda>r. f r = f x) xs = Some x"
proof (induction xs)
  case Nil
  then show ?case by simp
next
  case (Cons a xs)
  show ?case
  proof (cases "x = a")
    case True
    then show ?thesis by simp
  next
    case False
    with Cons.prems have m: "x \<in> set xs" by simp
    then have "f x \<in> f ` set xs" by (rule imageI)
    with Cons.prems have "f a \<noteq> f x" by auto
    with Cons m show ?thesis by simp
  qed
qed

lemma org_create_existing:
  assumes d: "distinct (org_slugs db)" and x: "x \<in> set (rows db)"
    and s: "org_slug x = oa_slug args"
  shows "org_create db args now = Inr (org_id x, db)"
proof -
  from d have d': "distinct (map org_slug (rows db))" by (simp add: org_slugs_def)
  have "find (\<lambda>r. org_slug r = org_slug x) (rows db) = Some x"
    using d' x by (rule find_key_distinct)
  with s have "unique (by_slug db (oa_slug args)) = Inr (Some x)"
    by (simp add: by_slug_def unique_key_distinct[OF d'])
  then show ?thesis by (simp add: org_create_def)
qed

lemma org_create_fresh:
  assumes "oa_slug args \<notin> set (org_slugs db)"
  shows "org_create db args now =
     Inr (next_id db,
          \<lparr>rows = rows db @
             [\<lparr>org_id = next_id db, org_slug = oa_slug args, org_name = oa_name args,
               org_billingCustomerId = oa_billingCustomerId args, org_status = oa_status args,
               org_config = oa_config args, org_createdAt = now\<rparr>],
           next_id = Suc (next_id db)\<rparr>)"
proof -
  from assms have "\<forall>r\<in>set (rows db). org_slug r \<noteq> oa_slug args"
    by (metis imageI org_slugs_def set_map)
  then have "by_slug db (oa_slug args) = []"
    by (simp add: by_slug_def filter_empty_conv)
  then show ?thesis by (simp add: org_create_def)
qed

lemma org_create_total:
  assumes d: "distinct (org_slugs db)"
  shows "\<exists>i db'. org_create db args now = Inr (i, db') \<and> distinct (org_slugs db')
           \<and> oa_slug args \<in> set (org_slugs db')
           \<and> set (org_slugs db) \<subseteq> set (org_slugs db')"
proof (cases "oa_slug args \<in> set (org_slugs db)")
  case True
  then obtain x where "x \<in> set (rows db)" "org_slug x = oa_slug args"
    by (auto simp: org_slugs_def)
  from org_create_existing[OF d this] d True show ?thesis by simp
next
  case False
  from org_create_fresh[OF False, where now = now] d False show ?thesis
    by (auto simp: org_slugs_def)
qed

lemma org_updateConfig_slugs:
  "org_updateConfig db i c = Inr db' \<Longrightarrow> org_slugs db' = org_slugs db"
  by (auto simp: org_updateConfig_def org_slugs_def rows_patch split: if_splits)

lemma org_apply_distinct: "distinct (org_slugs db) \<Longrightarrow> distinct (org_slugs (org_apply db x))"
proof (cases x)
  case (OrgCreate args now)
  assume d: "distinct (org_slugs db)"
  from org_create_total[OF d, of args now] OrgCreate show ?thesis by auto
next
  case (OrgUpdateConfig i c)
  assume "distinct (org_slugs db)"
  with OrgUpdateConfig show ?thesis
    by (cases "org_updateConfig db i c") (simp_all add: org_updateConfig_slugs)
qed

lemma org_run_distinct: "distinct (org_slugs (org_run xs))"
proof -
  have "distinct (org_slugs db) \<Longrightarrow> distinct (org_slugs (foldl org_apply db xs))" for db
    by (induction xs arbitrary: db) (simp_all add: org_apply_distinct)
  then show ?thesis
    unfolding org_run_def by (simp add: org_slugs_def empty_table_def)
qed

text \<open>
  Claim C9. In every state of the table that the mutations of the file can produce,
  \<^verbatim>\<open>organizations.create\<close> with the slug of an existing document returns the id of
  that document and leaves the table as it was, whatever the other arguments are; the
  call never throws, and afterwards exactly one document has the slug and no two documents
  share a slug.
\<close>

theorem org_create_idempotent_on_slug:
  "(\<forall>x \<in> set (rows (org_run ops)). org_slug x = oa_slug args \<longrightarrow>
       org_create (org_run ops) args now = Inr (org_id x, org_run ops))
   \<and> (\<exists>i db'. org_create (org_run ops) args now = Inr (i, db')
         \<and> distinct (map org_slug (rows db'))
         \<and> length (by_slug db' (oa_slug args)) = 1)
   \<and> distinct (map org_slug (rows (org_run ops)))"
proof -
  have d: "distinct (org_slugs (org_run ops))" by (rule org_run_distinct)
  have a: "\<forall>x \<in> set (rows (org_run ops)). org_slug x = oa_slug args \<longrightarrow>
       org_create (org_run ops) args now = Inr (org_id x, org_run ops)"
    using org_create_existing[OF d] by blast
  from org_create_total[OF d, of args now] obtain i db' where
    c: "org_create (org_run ops) args now = Inr (i, db')" and
    d': "distinct (org_slugs db')" and m: "oa_slug args \<in> set (org_slugs db')"
    by blast
  from m obtain x where x: "x \<in> set (rows db')" "org_slug x = oa_slug args"
    by (auto simp: org_slugs_def)
  from d' have d'': "distinct (map org_slug (rows db'))" by (simp add: org_slugs_def)
  have "find (\<lambda>r. org_slug r = org_slug x) (rows db') = Some x"
    using d'' x(1) by (rule find_key_distinct)
  with x(2) have "by_slug db' (oa_slug args) = [x]"
    by (simp add: by_slug_def filter_key_distinct[OF d''])
  with c d'' have b: "\<exists>i db'. org_create (org_run ops) args now = Inr (i, db')
         \<and> distinct (map org_slug (rows db'))
         \<and> length (by_slug db' (oa_slug args)) = 1"
    by simp
  from a b d show ?thesis by (simp add: org_slugs_def)
qed

text \<open>
  The theorem at a table with one organization: a second \<^verbatim>\<open>create\<close> with the same
  slug and other arguments returns the first id and inserts nothing.
\<close>

theorem org_create_idempotent_on_slug_witness:
  "org_create
     (org_run [OrgCreate \<lparr>oa_slug = ''acme'', oa_name = ''Acme'', oa_billingCustomerId = None,
                 oa_status = Active, oa_config = None\<rparr> 10])
     \<lparr>oa_slug = ''acme'', oa_name = ''Other'', oa_billingCustomerId = Some ''cus_1'',
      oa_status = Inactive, oa_config = Some ''{}''\<rparr> 20
   = Inr (0, \<lparr>rows = [\<lparr>org_id = 0, org_slug = ''acme'', org_name = ''Acme'',
                 org_billingCustomerId = None, org_status = Active, org_config = None,
                 org_createdAt = 10\<rparr>], next_id = 1\<rparr>)"
proof -
  let ?a1 = "\<lparr>oa_slug = ''acme'', oa_name = ''Acme'', oa_billingCustomerId = None,
                 oa_status = Active, oa_config = None\<rparr>"
  let ?a2 = "\<lparr>oa_slug = ''acme'', oa_name = ''Other'', oa_billingCustomerId = Some ''cus_1'',
      oa_status = Inactive, oa_config = Some ''{}''\<rparr>"
  let ?x = "\<lparr>org_id = 0, org_slug = ''acme'', org_name = ''Acme'',
                 org_billingCustomerId = None, org_status = Active, org_config = None,
                 org_createdAt = 10\<rparr>"
  have run: "org_run [OrgCreate ?a1 10] = \<lparr>rows = [?x], next_id = 1\<rparr>"
    by (simp add: org_run_def org_create_def by_slug_def empty_table_def)
  have h1: "?x \<in> set (rows (org_run [OrgCreate ?a1 10]))" by (simp add: run)
  have h2: "org_slug ?x = oa_slug ?a2" by simp
  note T = org_create_idempotent_on_slug [of "[OrgCreate ?a1 10]" ?a2 20]
  from T h1 h2 have "org_create (org_run [OrgCreate ?a1 10]) ?a2 20
      = Inr (org_id ?x, org_run [OrgCreate ?a1 10])"
    by blast
  then show ?thesis by (simp add: run)
qed

section \<open>Properties of the knowledge-base actions\<close>

text \<open>
  Claim C8 as stated fails for a call that provides a text, the empty string: the guard
  tests truthiness, so the call throws although \<^verbatim>\<open>text\<close> is present.
\<close>

theorem ingest_text_empty_counterexample:
  "ingest list_add []
     \<lparr>ia_namespace = ''org1'', ia_key = None, ia_text = Some [], ia_chunks = None,
      ia_title = Some ''Menu''\<rparr>
   = (Inl MustProvideTextOrChunks, [])"
  by (simp add: ingest_def truthy_text_def truthy_chunks_def)

text \<open>
  Claim C8, amended. \<^verbatim>\<open>ingest\<close> throws "Must provide either text or chunks", without
  calling the component and so without adding anything, when the text is absent or empty
  and the chunks are absent. In every other call it calls \<^verbatim>\<open>rag.add\<close> once, under the
  namespace of the request, with the text when the text is non-empty and with the chunks
  otherwise, and returns the \<^verbatim>\<open>entryId\<close> and \<^verbatim>\<open>status\<close> of what \<^verbatim>\<open>rag.add\<close>
  returned, or rethrows its error.
\<close>

theorem ingest_requires_content:
  "((ia_text args = None \<or> ia_text args = Some []) \<and> ia_chunks args = None \<longrightarrow>
      ingest rag_add kb args = (Inl MustProvideTextOrChunks, kb))
   \<and> (\<forall>t. ia_text args = Some t \<and> t \<noteq> [] \<longrightarrow>
         ingest rag_add kb args =
           (case rag_add kb \<lparr>aa_namespace = ia_namespace args, aa_key = ia_key args,
                             aa_title = ia_title args, aa_content = Text t\<rparr> of
              (Inl e, kb') \<Rightarrow> (Inl e, kb')
            | (Inr r, kb') \<Rightarrow> (Inr \<lparr>ir_entryId = ar_entryId r, ir_status = ar_status r\<rparr>, kb')))
   \<and> (\<forall>cs. (ia_text args = None \<or> ia_text args = Some []) \<and> ia_chunks args = Some cs \<longrightarrow>
         ingest rag_add kb args =
           (case rag_add kb \<lparr>aa_namespace = ia_namespace args, aa_key = ia_key args,
                             aa_title = ia_title args, aa_content = Chunks cs\<rparr> of
              (Inl e, kb') \<Rightarrow> (Inl e, kb')
            | (Inr r, kb') \<Rightarrow> (Inr \<lparr>ir_entryId = ar_entryId r, ir_status = ar_status r\<rparr>, kb')))"
proof (intro conjI allI impI)
  assume "(ia_text args = None \<or> ia_text args = Some []) \<and> ia_chunks args = None"
  then show "ingest rag_add kb args = (Inl MustProvideTextOrChunks, kb)"
    by (auto simp: ingest_def truthy_text_def truthy_chunks_def)
next
  fix t assume "ia_text args = Some t \<and> t \<noteq> []"
  then show "ingest rag_add kb args =
           (case rag_add kb \<lparr>aa_namespace = ia_namespace args, aa_key = ia_key args,
                             aa_title = ia_title args, aa_content = Text t\<rparr> of
              (Inl e, kb') \<Rightarrow> (Inl e, kb')
            | (Inr r, kb') \<Rightarrow> (Inr \<lparr>ir_entryId = ar_entryId r, ir_status = ar_status r\<rparr>, kb'))"
    by (simp add: ingest_def ingest_call_def truthy_text_def)
next
  fix cs assume "(ia_text args = None \<or> ia_text args = Some []) \<and> ia_chunks args = Some cs"
  then show "ingest rag_add kb args =
           (case rag_add kb \<lparr>aa_namespace = ia_namespace args, aa_key = ia_key args,
                             aa_title = ia_title args, aa_content = Chunks cs\<rparr> of
              (Inl e, kb') \<Rightarrow> (Inl e, kb')
            | (Inr r, kb') \<Rightarrow> (Inr \<lparr>ir_entryId = ar_entryId r, ir_status = ar_status r\<rparr>, kb'))"
    by (auto simp: ingest_def ingest_call_def truthy_text_def truthy_chunks_def)
qed

text \<open>
  The theorem at three calls: no content, a text, and an empty text with chunks.
\<close>

theorem ingest_requires_content_witness:
  "ingest list_add []
     \<lparr>ia_namespace = ''org1'', ia_key = None, ia_text = None, ia_chunks = None,
      ia_title = None\<rparr>
     = (Inl MustProvideTextOrChunks, [])
   \<and> ingest list_add []
     \<lparr>ia_namespace = ''org1'', ia_key = None, ia_text = Some ''Open 9 to 5'', ia_chunks = None,
      ia_title = None\<rparr>
     = (Inr \<lparr>ir_entryId = ''e'', ir_status = Ready\<rparr>,
        [\<lparr>aa_namespace = ''org1'', aa_key = None, aa_title = None,
          aa_content = Text ''Open 9 to 5''\<rparr>])
   \<and> ingest list_add []
     \<lparr>ia_namespace = ''org1'', ia_key = None, ia_text = Some [], ia_chunks = Some [''a'', ''b''],
      ia_title = None\<rparr>
     = (Inr \<lparr>ir_entryId = ''e'', ir_status = Ready\<rparr>,
        [\<lparr>aa_namespace = ''org1'', aa_key = None, aa_title = None,
          aa_content = Chunks [''a'', ''b'']\<rparr>])"
proof -
  let ?a0 = "\<lparr>ia_namespace = ''org1'', ia_key = None, ia_text = None, ia_chunks = None,
      ia_title = None\<rparr>"
  let ?a1 = "\<lparr>ia_namespace = ''org1'', ia_key = None, ia_text = Some ''Open 9 to 5'',
      ia_chunks = None, ia_title = None\<rparr>"
  let ?a2 = "\<lparr>ia_namespace = ''org1'', ia_key = None, ia_text = Some [],
      ia_chunks = Some [''a'', ''b''], ia_title = None\<rparr>"
  have h0: "(ia_text ?a0 = None \<or> ia_text ?a0 = Some []) \<and> ia_chunks ?a0 = None" by simp
  have h1: "ia_text ?a1 = Some ''Open 9 to 5'' \<and> ''Open 9 to 5'' \<noteq> []" by simp
  have h2: "(ia_text ?a2 = None \<or> ia_text ?a2 = Some []) \<and> ia_chunks ?a2 = Some [''a'', ''b'']"
    by simp
  from ingest_requires_content [of ?a0 list_add "[]"] h0
  have c0: "ingest list_add [] ?a0 = (Inl MustProvideTextOrChunks, [])" by blast
  from ingest_requires_content [of ?a1 list_add "[]"] h1
  have c1: "ingest list_add [] ?a1 =
           (case list_add [] \<lparr>aa_namespace = ia_namespace ?a1, aa_key = ia_key ?a1,
                             aa_title = ia_title ?a1, aa_content = Text ''Open 9 to 5''\<rparr> of
              (Inl e, kb') \<Rightarrow> (Inl e, kb')
            | (Inr r, kb') \<Rightarrow> (Inr \<lparr>ir_entryId = ar_entryId r, ir_status = ar_status r\<rparr>, kb'))"
    by blast
  from ingest_requires_content [of ?a2 list_add "[]"] h2
  have c2: "ingest list_add [] ?a2 =
           (case list_add [] \<lparr>aa_namespace = ia_namespace ?a2, aa_key = ia_key ?a2,
                             aa_title = ia_title ?a2, aa_content = Chunks [''a'', ''b'']\<rparr> of
              (Inl e, kb') \<Rightarrow> (Inl e, kb')
            | (Inr r, kb') \<Rightarrow> (Inr \<lparr>ir_entryId = ar_entryId r, ir_status = ar_status r\<rparr>, kb'))"
    by blast
  show ?thesis
    unfolding c0 c1 c2 by (simp add: list_add_def)
qed

section \<open>Properties of the cascade\<close>

subsection \<open>The entry of the cascade\<close>

lemma cascade_gated:
  assumes "\<not> enabled cfg \<or> \<not> participates (bucket cl) ns session cfg"
  shows "cascade cfg cl store limiter ns session utt ctx =
     \<lparr>o_decision = \<lparr>d_shouldEscalate = True, d_response = None,
                    d_stage = Stage2, d_method = Disabled, d_matchScore = 0\<rparr>,
      o_reply = (case respond cl utt ctx of Inl e' \<Rightarrow> Inl FallbackFailed
                 | Inr (generated, confidence) \<Rightarrow> Inr generated),
      o_calls = [FallbackCall utt ctx], o_limiter = limiter, o_store = store\<rparr>"
  using assms
  by (auto simp: cascade_def escalate_def call_fallback_def split: sum.splits prod.splits)

lemma cascade_open:
  "enabled cfg \<Longrightarrow> participates (bucket cl) ns session cfg \<Longrightarrow>
   cascade cfg cl store limiter ns session utt ctx = run_stages cfg cl store limiter ns utt ctx"
  by (simp add: cascade_def)

lemma cascade_cases:
  obtains (gated) "cascade cfg cl store limiter ns session utt ctx =
     \<lparr>o_decision = \<lparr>d_shouldEscalate = True, d_response = None,
                    d_stage = Stage2, d_method = Disabled, d_matchScore = 0\<rparr>,
      o_reply = (case respond cl utt ctx of Inl e' \<Rightarrow> Inl FallbackFailed
                 | Inr (generated, confidence) \<Rightarrow> Inr generated),
      o_calls = [FallbackCall utt ctx], o_limiter = limiter, o_store = store\<rparr>"
  | (stages) "cascade cfg cl store limiter ns session utt ctx
                = run_stages cfg cl store limiter ns utt ctx"
proof (cases "enabled cfg \<and> participates (bucket cl) ns session cfg")
  case True
  then show ?thesis by (intro stages cascade_open) simp_all
next
  case False
  then show ?thesis by (intro gated cascade_gated) blast
qed

subsection \<open>Stage 0\<close>

lemma validate_length:
  "int (length utt) < minValidationLength cfg \<or> maxValidationLength cfg < int (length utt) \<Longrightarrow>
   \<exists>reason. validate utt cfg limiter = (Reject reason, limiter)"
  by (auto simp: validate_def)

lemma run_stages_reject:
  "validate utt cfg limiter = (Reject reason, limiter') \<Longrightarrow>
   run_stages cfg cl store limiter ns utt ctx =
     \<lparr>o_decision = \<lparr>d_shouldEscalate = False, d_response = Some clarification_prompt,
                    d_stage = Stage0, d_method = ValidationReject, d_matchScore = 0\<rparr>,
      o_reply = Inr clarification_prompt, o_calls = [], o_limiter = limiter',
      o_store = store\<rparr>"
  by (simp add: run_stages_def)

text \<open>
  Claim C3 as stated fails for a tenant whose cascade is switched off: the switch is tested
  before the validator, so the one-letter utterance is not rejected at stage 0 but routed
  to Stage 2 with the method disabled, and the fallback provider is called.
\<close>

theorem invalid_length_disabled_counterexample:
  "int (length ''a'') < minValidationLength
      \<lparr>enabled = False, fuzzyThreshold = 8 / 10, semanticThreshold = 75 / 100,
       learningConfidenceThreshold = 9 / 10, minValidationLength = 2,
       maxValidationLength = 500, blocklist = [], rolloutPercentage = 100,
       rolloutAllowlist = [], rolloutDenylist = [], deactivationSuccessFloor = 6 / 10,
       deactivationMinSamples = 10\<rparr>
   \<and> o_decision (cascade
      \<lparr>enabled = False, fuzzyThreshold = 8 / 10, semanticThreshold = 75 / 100,
       learningConfidenceThreshold = 9 / 10, minValidationLength = 2,
       maxValidationLength = 500, blocklist = [], rolloutPercentage = 100,
       rolloutAllowlist = [], rolloutDenylist = [], deactivationSuccessFloor = 6 / 10,
       deactivationMinSamples = 10\<rparr>
      \<lparr>embed = (\<lambda>u. Inr [1, 0]),
       respond = (\<lambda>u c. Inr (''We are open 9 to 5'', 95 / 100)),
       cosine = (\<lambda>a b. 0), ratio = (\<lambda>a b. 0),
       bucket = (\<lambda>t s. length t + length s)\<rparr>
      [] 10 ''org1'' ''s1'' ''a'' [])
     = \<lparr>d_shouldEscalate = True, d_response = None, d_stage = Stage2,
            d_method = Disabled, d_matchScore = 0\<rparr>
   \<and> o_calls (cascade
      \<lparr>enabled = False, fuzzyThreshold = 8 / 10, semanticThreshold = 75 / 100,
       learningConfidenceThreshold = 9 / 10, minValidationLength = 2,
       maxValidationLength = 500, blocklist = [], rolloutPercentage = 100,
       rolloutAllowlist = [], rolloutDenylist = [], deactivationSuccessFloor = 6 / 10,
       deactivationMinSamples = 10\<rparr>
      \<lparr>embed = (\<lambda>u. Inr [1, 0]),
       respond = (\<lambda>u c. Inr (''We are open 9 to 5'', 95 / 100)),
       cosine = (\<lambda>a b. 0), ratio = (\<lambda>a b. 0),
       bucket = (\<lambda>t s. length t + length s)\<rparr>
      [] 10 ''org1'' ''s1'' ''a'' [])
     = [FallbackCall ''a'' []]"
  by (simp add: cascade_def escalate_def call_fallback_def)

text \<open>
  Claim C3, amended. For an utterance shorter than the configured minimum or longer than
  the configured maximum, when the cascade is enabled and the tenant takes part in the
  rollout, the decision has stage 0 and the method validation-reject, it does not escalate,
  and the request calls no provider: the list of provider calls is empty, and the outcome
  is the same whatever the embedding and fallback clients would answer. When the cascade
  is disabled or the tenant is excluded from the rollout, the request is routed to Stage 2
  with the method disabled instead, and the fallback provider is the one provider called.
\<close>

theorem invalid_length_stops_at_stage0:
  assumes "int (length utt) < minValidationLength cfg \<or> maxValidationLength cfg < int (length utt)"
  shows "(enabled cfg \<and> participates (bucket cl) ns session cfg \<longrightarrow>
            d_stage (o_decision (cascade cfg cl store limiter ns session utt ctx)) = Stage0
          \<and> d_method (o_decision (cascade cfg cl store limiter ns session utt ctx))
              = ValidationReject
          \<and> \<not> d_shouldEscalate (o_decision (cascade cfg cl store limiter ns session utt ctx))
          \<and> o_calls (cascade cfg cl store limiter ns session utt ctx) = []
          \<and> (bucket cl' = bucket cl \<longrightarrow>
                cascade cfg cl' store limiter ns session utt ctx
                  = cascade cfg cl store limiter ns session utt ctx))
     \<and> (\<not> (enabled cfg \<and> participates (bucket cl) ns session cfg) \<longrightarrow>
            o_decision (cascade cfg cl store limiter ns session utt ctx)
              = \<lparr>d_shouldEscalate = True, d_response = None, d_stage = Stage2,
                 d_method = Disabled, d_matchScore = 0\<rparr>
          \<and> o_calls (cascade cfg cl store limiter ns session utt ctx) = [FallbackCall utt ctx])"
proof (intro conjI impI)
  assume g: "\<not> (enabled cfg \<and> participates (bucket cl) ns session cfg)"
  then have "\<not> enabled cfg \<or> \<not> participates (bucket cl) ns session cfg" by blast
  note c = cascade_gated[OF this, of store limiter utt ctx]
  show "o_decision (cascade cfg cl store limiter ns session utt ctx)
              = \<lparr>d_shouldEscalate = True, d_response = None, d_stage = Stage2,
                 d_method = Disabled, d_matchScore = 0\<rparr>"
    by (simp add: c)
  show "o_calls (cascade cfg cl store limiter ns session utt ctx) = [FallbackCall utt ctx]"
    by (simp add: c)
next
  assume p: "enabled cfg \<and> participates (bucket cl) ns session cfg"
  from validate_length[OF assms] obtain reason where
    v: "validate utt cfg limiter = (Reject reason, limiter)" by blast
  have r: "run_stages cfg c store limiter ns utt ctx =
     \<lparr>o_decision = \<lparr>d_shouldEscalate = False, d_response = Some clarification_prompt,
                    d_stage = Stage0, d_method = ValidationReject, d_matchScore = 0\<rparr>,
      o_reply = Inr clarification_prompt, o_calls = [], o_limiter = limiter,
      o_store = store\<rparr>" for c
    using v by (rule run_stages_reject)
  from p have o: "cascade cfg cl store limiter ns session utt ctx
      = run_stages cfg cl store limiter ns utt ctx"
    by (simp add: cascade_open)
  show "d_stage (o_decision (cascade cfg cl store limiter ns session utt ctx)) = Stage0"
    by (simp add: o r)
  show "d_method (o_decision (cascade cfg cl store limiter ns session utt ctx))
              = ValidationReject"
    by (simp add: o r)
  show "\<not> d_shouldEscalate (o_decision (cascade cfg cl store limiter ns session utt ctx))"
    by (simp add: o r)
  show "o_calls (cascade cfg cl store limiter ns session utt ctx) = []"
    by (simp add: o r)
  assume b: "bucket cl' = bucket cl"
  with p have "cascade cfg cl' store limiter ns session utt ctx
      = run_stages cfg cl' store limiter ns utt ctx"
    by (simp add: cascade_open)
  then show "cascade cfg cl' store limiter ns session utt ctx
                  = cascade cfg cl store limiter ns session utt ctx"
    by (simp add: o r)
qed

text \<open>
  The theorem at the one-letter utterance of the plan's fourth scenario, with a minimum
  length of 2, for a tenant that takes part.
\<close>

theorem invalid_length_stops_at_stage0_witness:
  "d_stage (o_decision (cascade
      \<lparr>enabled = True, fuzzyThreshold = 8 / 10, semanticThreshold = 75 / 100,
       learningConfidenceThreshold = 9 / 10, minValidationLength = 2,
       maxValidationLength = 500, blocklist = [], rolloutPercentage = 100,
       rolloutAllowlist = [], rolloutDenylist = [], deactivationSuccessFloor = 6 / 10,
       deactivationMinSamples = 10\<rparr>
      \<lparr>embed = (\<lambda>u. Inr [1, 0]),
       respond = (\<lambda>u c. Inr (''We are open 9 to 5'', 95 / 100)),
       cosine = (\<lambda>a b. 0), ratio = (\<lambda>a b. 0),
       bucket = (\<lambda>t s. length t + length s)\<rparr>
      [] 10 ''org1'' ''s1'' ''a'' [])) = Stage0
   \<and> o_calls (cascade
      \<lparr>enabled = True, fuzzyThreshold = 8 / 10, semanticThreshold = 75 / 100,
       learningConfidenceThreshold = 9 / 10, minValidationLength = 2,
       maxValidationLength = 500, blocklist = [], rolloutPercentage = 100,
       rolloutAllowlist = [], rolloutDenylist = [], deactivationSuccessFloor = 6 / 10,
       deactivationMinSamples = 10\<rparr>
      \<lparr>embed = (\<lambda>u. Inr [1, 0]),
       respond = (\<lambda>u c. Inr (''We are open 9 to 5'', 95 / 100)),
       cosine = (\<lambda>a b. 0), ratio = (\<lambda>a b. 0),
       bucket = (\<lambda>t s. length t + length s)\<rparr>
      [] 10 ''org1'' ''s1'' ''a'' []) = []"
proof -
  let ?cfg = "\<lparr>enabled = True, fuzzyThreshold = 8 / 10, semanticThreshold = 75 / 100,
       learningConfidenceThreshold = 9 / 10, minValidationLength = 2,
       maxValidationLength = 500, blocklist = [], rolloutPercentage = 100,
       rolloutAllowlist = [], rolloutDenylist = [], deactivationSuccessFloor = 6 / 10,
       deactivationMinSamples = 10\<rparr>"
  let ?cl = "\<lparr>embed = (\<lambda>u. Inr [1, 0]),
       respond = (\<lambda>u c. Inr (''We are open 9 to 5'', 95 / 100)),
       cosine = (\<lambda>a b. 0), ratio = (\<lambda>a b. 0),
       bucket = (\<lambda>t s. length t + length s)\<rparr>"
  have h: "int (length ''a'') < minValidationLength ?cfg
           \<or> maxValidationLength ?cfg < int (length ''a'')"
    by simp
  have p: "enabled ?cfg \<and> participates (bucket ?cl) ''org1'' ''s1'' ?cfg"
    by (simp add: participates_def)
  from invalid_length_stops_at_stage0
         [of "''a''" ?cfg ?cl "''org1''" "''s1''" "[]" 10 "[]" ?cl, OF h] p
  show ?thesis by blast
qed

subsection \<open>Stage 1a\<close>

lemma exact_pass_first:
  assumes "p \<in> set pats" and "k \<in> set (p_keywords p)" and "contains utt k"
  shows "\<exists>q pre post. exact_pass utt pats = Some q \<and> pats = pre @ q # post
           \<and> list_ex (contains utt) (p_keywords q)
           \<and> (\<forall>r \<in> set pre. \<not> list_ex (contains utt) (p_keywords r))"
proof -
  let ?P = "\<lambda>p. list_ex (contains utt) (p_keywords p)"
  from assms have "?P p" by (auto simp: list_ex_iff)
  with assms(1) have "find ?P pats \<noteq> None" by (auto simp: find_None_iff)
  then obtain q where f: "find ?P pats = Some q" by blast
  then obtain i where i: "i < length pats" "?P (pats ! i)" "q = pats ! i"
    "\<forall>j<i. \<not> ?P (pats ! j)"
    unfolding find_Some_iff by blast
  have split: "pats = take i pats @ q # drop (Suc i) pats"
    using i(1,3) by (simp add: id_take_nth_drop)
  have "\<forall>r \<in> set (take i pats). \<not> ?P r"
  proof
    fix r assume "r \<in> set (take i pats)"
    then obtain j where "j < length (take i pats)" "r = take i pats ! j"
      by (auto simp: in_set_conv_nth)
    with i(1,4) show "\<not> ?P r" by simp
  qed
  with f split i(2,3) show ?thesis
    unfolding exact_pass_def by blast
qed

lemma run_stages_lexical_hit:
  "lexical_match cfg (ratio cl) utt (getActivePatterns ns store) = LexHit q s m \<Longrightarrow>
   o_calls (run_stages cfg cl store limiter ns utt ctx) = []"
  by (cases "validate utt cfg limiter" rule: prod.exhaust[where 'a = validation])
     (auto simp: run_stages_def Let_def split: validation.splits)

text \<open>
  Claim C4 as stated fails when two active patterns of the namespace have a keyword in the
  utterance: the first of them wins, so the second, here \<open>business_hours\<close> with its
  keyword \<open>hours\<close>, is not the pattern returned.
\<close>

theorem exact_keyword_that_pattern_counterexample:
  "lexical_match
      \<lparr>enabled = True, fuzzyThreshold = 8 / 10, semanticThreshold = 75 / 100,
       learningConfidenceThreshold = 9 / 10, minValidationLength = 2,
       maxValidationLength = 500, blocklist = [], rolloutPercentage = 100,
       rolloutAllowlist = [], rolloutDenylist = [], deactivationSuccessFloor = 6 / 10,
       deactivationMinSamples = 10\<rparr>
      (\<lambda>a b. 0) ''hi what are your hours''
      (getActivePatterns ''org1''
         [seed_pattern ''org1'' ''greeting'' [''hi'', ''hello'', ''hey''] [] ''Hello!'' 1,
          seed_pattern ''org1'' ''business_hours'' [''hours'', ''open'', ''close''] []
            ''We are open 9 to 5'' 2])
     = LexHit (seed_pattern ''org1'' ''greeting'' [''hi'', ''hello'', ''hey''] [] ''Hello!'' 1)
         1 Exact
   \<and> seed_pattern ''org1'' ''business_hours'' [''hours'', ''open'', ''close''] []
            ''We are open 9 to 5'' 2
       \<in> set (getActivePatterns ''org1''
         [seed_pattern ''org1'' ''greeting'' [''hi'', ''hello'', ''hey''] [] ''Hello!'' 1,
          seed_pattern ''org1'' ''business_hours'' [''hours'', ''open'', ''close''] []
            ''We are open 9 to 5'' 2])
   \<and> ''hours'' \<in> set (p_keywords (seed_pattern ''org1'' ''business_hours''
            [''hours'', ''open'', ''close''] [] ''We are open 9 to 5'' 2))
   \<and> contains ''hi what are your hours'' ''hours''
   \<and> seed_pattern ''org1'' ''business_hours'' [''hours'', ''open'', ''close''] []
            ''We are open 9 to 5'' 2
       \<noteq> seed_pattern ''org1'' ''greeting'' [''hi'', ''hello'', ''hey''] [] ''Hello!'' 1"
  by (simp add: lexical_match_def exact_pass_def getActivePatterns_def seed_pattern_def)

text \<open>
  Claim C4, amended. When the utterance contains a keyword of some active pattern of the
  namespace of the request, Stage 1a returns a hit with score exactly 1 and the method
  exact on the first active pattern of the namespace, in store order, that has a keyword
  contained in the utterance; this is the given pattern when no pattern before it has one.
  The request makes no embedding call: the stages make no provider call at all, and so
  does the cascade for a tenant that takes part, while a tenant that is switched off or
  excluded reaches the fallback provider only.
\<close>

theorem exact_keyword_first_hit:
  assumes "p \<in> set (getActivePatterns ns store)" and "k \<in> set (p_keywords p)"
    and "contains utt k"
  shows "\<exists>q pre post.
           lexical_match cfg (ratio cl) utt (getActivePatterns ns store) = LexHit q 1 Exact
         \<and> getActivePatterns ns store = pre @ q # post
         \<and> list_ex (contains utt) (p_keywords q)
         \<and> (\<forall>r \<in> set pre. \<not> list_ex (contains utt) (p_keywords r))
         \<and> p_namespace q = ns \<and> p_isActive q
         \<and> o_calls (run_stages cfg cl store limiter ns utt ctx) = []
         \<and> (enabled cfg \<and> participates (bucket cl) ns session cfg \<longrightarrow>
               o_calls (cascade cfg cl store limiter ns session utt ctx) = [])
         \<and> (\<forall>u. EmbedCall u \<notin> set (o_calls (cascade cfg cl store limiter ns session utt ctx)))"
proof -
  from exact_pass_first[OF assms] obtain q pre post where
    e: "exact_pass utt (getActivePatterns ns store) = Some q" and
    s: "getActivePatterns ns store = pre @ q # post" and
    c: "list_ex (contains utt) (p_keywords q)" and
    n: "\<forall>r \<in> set pre. \<not> list_ex (contains utt) (p_keywords r)"
    by blast
  from e have l: "lexical_match cfg (ratio cl) utt (getActivePatterns ns store) = LexHit q 1 Exact"
    by (simp add: lexical_match_def)
  from s have "q \<in> set (getActivePatterns ns store)" by simp
  then have a: "p_namespace q = ns \<and> p_isActive q"
    by (simp add: getActivePatterns_def)
  from run_stages_lexical_hit[OF l]
  have r: "o_calls (run_stages cfg cl store limiter ns utt ctx) = []" .
  have o: "enabled cfg \<and> participates (bucket cl) ns session cfg \<longrightarrow>
               o_calls (cascade cfg cl store limiter ns session utt ctx) = []"
    using r by (simp add: cascade_open)
  have ne: "\<forall>u. EmbedCall u \<notin> set (o_calls (cascade cfg cl store limiter ns session utt ctx))"
    by (cases rule: cascade_cases[of cfg cl store limiter ns session utt ctx])
       (simp_all add: r)
  from l s c n a r o ne show ?thesis by blast
qed

text \<open>
  The theorem at a store of three patterns, one of another namespace: the utterance
  contains a keyword of the third pattern only among those of its namespace.
\<close>

theorem exact_keyword_first_hit_witness:
  "lexical_match
      \<lparr>enabled = True, fuzzyThreshold = 8 / 10, semanticThreshold = 75 / 100,
       learningConfidenceThreshold = 9 / 10, minValidationLength = 2,
       maxValidationLength = 500, blocklist = [], rolloutPercentage = 100,
       rolloutAllowlist = [], rolloutDenylist = [], deactivationSuccessFloor = 6 / 10,
       deactivationMinSamples = 10\<rparr>
      (\<lambda>a b. 0) ''what are your hours''
      (getActivePatterns ''org1''
         [seed_pattern ''org1'' ''greeting'' [''hi'', ''hello'', ''hey''] [] ''Hello!'' 1,
          seed_pattern ''org2'' ''business_hours'' [''hours''] [] ''Always open'' 2,
          seed_pattern ''org1'' ''business_hours'' [''hours'', ''open'', ''close''] []
            ''We are open 9 to 5'' 3])
     = LexHit (seed_pattern ''org1'' ''business_hours'' [''hours'', ''open'', ''close''] []
            ''We are open 9 to 5'' 3) 1 Exact
   \<and> o_calls (cascade
      \<lparr>enabled = True, fuzzyThreshold = 8 / 10, semanticThreshold = 75 / 100,
       learningConfidenceThreshold = 9 / 10, minValidationLength = 2,
       maxValidationLength = 500, blocklist = [], rolloutPercentage = 100,
       rolloutAllowlist = [], rolloutDenylist = [], deactivationSuccessFloor = 6 / 10,
       deactivationMinSamples = 10\<rparr>
      \<lparr>embed = (\<lambda>u. Inr [1, 0]),
       respond = (\<lambda>u c. Inr (''We are open 9 to 5'', 95 / 100)),
       cosine = (\<lambda>a b. 0), ratio = (\<lambda>a b. 0),
       bucket = (\<lambda>t s. length t + length s)\<rparr>
      [seed_pattern ''org1'' ''greeting'' [''hi'', ''hello'', ''hey''] [] ''Hello!'' 1,
       seed_pattern ''org2'' ''business_hours'' [''hours''] [] ''Always open'' 2,
       seed_pattern ''org1'' ''business_hours'' [''hours'', ''open'', ''close''] []
            ''We are open 9 to 5'' 3]
      10 ''org1'' ''s1'' ''what are your hours'' []) = []"
proof -
  let ?cfg = "\<lparr>enabled = True, fuzzyThreshold = 8 / 10, semanticThreshold = 75 / 100,
       learningConfidenceThreshold = 9 / 10, minValidationLength = 2,
       maxValidationLength = 500, blocklist = [], rolloutPercentage = 100,
       rolloutAllowlist = [], rolloutDenylist = [], deactivationSuccessFloor = 6 / 10,
       deactivationMinSamples = 10\<rparr>"
  let ?cl = "\<lparr>embed = (\<lambda>u. Inr [1, 0]),
       respond = (\<lambda>u c. Inr (''We are open 9 to 5'', 95 / 100)),
       cosine = (\<lambda>a b. 0), ratio = (\<lambda>a b. 0),
       bucket = (\<lambda>t s. length t + length s)\<rparr>"
  let ?p = "seed_pattern ''org1'' ''business_hours'' [''hours'', ''open'', ''close''] []
            ''We are open 9 to 5'' 3"
  let ?store = "[seed_pattern ''org1'' ''greeting'' [''hi'', ''hello'', ''hey''] [] ''Hello!'' 1,
       seed_pattern ''org2'' ''business_hours'' [''hours''] [] ''Always open'' 2, ?p]"
  have h1: "?p \<in> set (getActivePatterns ''org1'' ?store)"
    by (simp add: getActivePatterns_def seed_pattern_def)
  have h2: "''hours'' \<in> set (p_keywords ?p)" by (simp add: seed_pattern_def)
  have h3: "contains ''what are your hours'' ''hours''" by simp
  have h4: "enabled ?cfg \<and> participates (bucket ?cl) ''org1'' ''s1'' ?cfg"
    by (simp add: participates_def)
  from exact_keyword_first_hit [of ?p "''org1''" ?store "''hours''" "''what are your hours''"
      ?cfg ?cl 10 "[]" "''s1''", OF h1 h2 h3] h4
  have c: "o_calls (cascade ?cfg ?cl ?store 10 ''org1'' ''s1'' ''what are your hours'' []) = []"
    by blast
  have "lexical_match ?cfg (\<lambda>a b. 0) ''what are your hours'' (getActivePatterns ''org1'' ?store)
      = LexHit ?p 1 Exact"
    by (simp add: lexical_match_def exact_pass_def getActivePatterns_def seed_pattern_def)
  with c show ?thesis by blast
qed

subsection \<open>Stage 1b\<close>

lemma run_stages_embed_failed:
  assumes "embed cl utt = Inl e"
    and "EmbedCall utt \<in> set (o_calls (run_stages cfg cl store limiter ns utt ctx))"
  shows "run_stages cfg cl store limiter ns utt ctx =
     \<lparr>o_decision = \<lparr>d_shouldEscalate = True, d_response = None,
                    d_stage = Stage2, d_method = Fallback, d_matchScore = 0\<rparr>,
      o_reply = (case respond cl utt ctx of Inl e' \<Rightarrow> Inl FallbackFailed
                 | Inr (generated, confidence) \<Rightarrow> Inr generated),
      o_calls = [EmbedCall utt, FallbackCall utt ctx],
      o_limiter = limiter - 1, o_store = store\<rparr>"
proof (cases "validate utt cfg limiter")
  case (Pair v limiter')
  show ?thesis
  proof (cases v)
    case (Reject reason)
    with Pair assms(2) show ?thesis by (simp add: run_stages_def Let_def)
  next
    case Pass
    with Pair have l: "limiter' = limiter - 1"
      by (auto simp: validate_def split: if_splits)
    show ?thesis
    proof (cases "lexical_match cfg (ratio cl) utt (getActivePatterns ns store)")
      case (LexHit q s m)
      with Pair Pass assms(2) show ?thesis by (simp add: run_stages_def Let_def)
    next
      case LexMiss
      with Pair Pass l assms(1) show ?thesis
        by (simp add: run_stages_def Let_def stage1b_def call_embed_def semantic_match_def
            escalate_def call_fallback_def split: sum.splits prod.splits)
    qed
  qed
qed

lemma cascade_embed_failed:
  assumes "embed cl utt = Inl e"
    and "EmbedCall utt \<in> set (o_calls (cascade cfg cl store limiter ns session utt ctx))"
  shows "cascade cfg cl store limiter ns session utt ctx =
     \<lparr>o_decision = \<lparr>d_shouldEscalate = True, d_response = None,
                    d_stage = Stage2, d_method = Fallback, d_matchScore = 0\<rparr>,
      o_reply = (case respond cl utt ctx of Inl e' \<Rightarrow> Inl FallbackFailed
                 | Inr (generated, confidence) \<Rightarrow> Inr generated),
      o_calls = [EmbedCall utt, FallbackCall utt ctx],
      o_limiter = limiter - 1, o_store = store\<rparr>"
proof (cases rule: cascade_cases[of cfg cl store limiter ns session utt ctx])
  case gated
  with assms(2) show ?thesis by simp
next
  case stages
  with assms(2) have "EmbedCall utt \<in> set (o_calls (run_stages cfg cl store limiter ns utt ctx))"
    by simp
  from run_stages_embed_failed[OF assms(1) this] stages show ?thesis by simp
qed

text \<open>
  Claim C5. When a request reaches Stage 1b, so that the Embedding Client is called, and
  the client fails or times out, the cascade goes on to Stage 2: its decision has stage 2,
  the method fallback and asks for escalation, the fallback provider is called right after
  the embedding call, and the reply to the caller is the generated response. The embedding
  failure never reaches the caller; the one error a caller can see is that of a fallback
  provider that fails itself.
\<close>

theorem embedding_failure_fails_open:
  assumes "embed cl utt = Inl e"
    and "EmbedCall utt \<in> set (o_calls (cascade cfg cl store limiter ns session utt ctx))"
  shows "o_decision (cascade cfg cl store limiter ns session utt ctx) =
           \<lparr>d_shouldEscalate = True, d_response = None, d_stage = Stage2, d_method = Fallback,
            d_matchScore = 0\<rparr>
     \<and> o_calls (cascade cfg cl store limiter ns session utt ctx)
           = [EmbedCall utt, FallbackCall utt ctx]
     \<and> o_reply (cascade cfg cl store limiter ns session utt ctx) =
           (case respond cl utt ctx of Inl e' \<Rightarrow> Inl FallbackFailed
            | Inr (generated, confidence) \<Rightarrow> Inr generated)
     \<and> o_reply (cascade cfg cl store limiter ns session utt ctx) \<noteq> Inl ProviderUnavailable"
proof -
  note c = cascade_embed_failed[OF assms]
  have "(case respond cl utt ctx of Inl e' \<Rightarrow> Inl FallbackFailed
            | Inr (generated, confidence) \<Rightarrow> Inr generated)
          \<noteq> (Inl ProviderUnavailable :: spl_error + string)"
    by (simp split: sum.splits prod.splits)
  then show ?thesis by (simp add: c)
qed

text \<open>
  The theorem at the plan's fifth scenario: the embedding times out and the fallback
  provider answers.
\<close>

theorem embedding_failure_fails_open_witness:
  "o_decision (cascade
      \<lparr>enabled = True, fuzzyThreshold = 8 / 10, semanticThreshold = 75 / 100,
       learningConfidenceThreshold = 9 / 10, minValidationLength = 2,
       maxValidationLength = 500, blocklist = [], rolloutPercentage = 100,
       rolloutAllowlist = [], rolloutDenylist = [], deactivationSuccessFloor = 6 / 10,
       deactivationMinSamples = 10\<rparr>
      \<lparr>embed = (\<lambda>u. Inl ProviderUnavailable),
       respond = (\<lambda>u c. Inr (''We close at 5'', 95 / 100)),
       cosine = (\<lambda>a b. 0), ratio = (\<lambda>a b. 0),
       bucket = (\<lambda>t s. length t + length s)\<rparr>
      [seed_pattern ''org1'' ''business_hours'' [''hours''] [(''What are your hours?'', [1, 0])]
         ''We are open 9 to 5'' 1]
      10 ''org1'' ''s1'' ''when do you close'' [])
     = \<lparr>d_shouldEscalate = True, d_response = None, d_stage = Stage2, d_method = Fallback,
        d_matchScore = 0\<rparr>
   \<and> o_reply (cascade
      \<lparr>enabled = True, fuzzyThreshold = 8 / 10, semanticThreshold = 75 / 100,
       learningConfidenceThreshold = 9 / 10, minValidationLength = 2,
       maxValidationLength = 500, blocklist = [], rolloutPercentage = 100,
       rolloutAllowlist = [], rolloutDenylist = [], deactivationSuccessFloor = 6 / 10,
       deactivationMinSamples = 10\<rparr>
      \<lparr>embed = (\<lambda>u. Inl ProviderUnavailable),
       respond = (\<lambda>u c. Inr (''We close at 5'', 95 / 100)),
       cosine = (\<lambda>a b. 0), ratio = (\<lambda>a b. 0),
       bucket = (\<lambda>t s. length t + length s)\<rparr>
      [seed_pattern ''org1'' ''business_hours'' [''hours''] [(''What are your hours?'', [1, 0])]
         ''We are open 9 to 5'' 1]
      10 ''org1'' ''s1'' ''when do you close'' [])
     = Inr ''We close at 5''"
proof -
  let ?cfg = "\<lparr>enabled = True, fuzzyThreshold = 8 / 10, semanticThreshold = 75 / 100,
       learningConfidenceThreshold = 9 / 10, minValidationLength = 2,
       maxValidationLength = 500, blocklist = [], rolloutPercentage = 100,
       rolloutAllowlist = [], rolloutDenylist = [], deactivationSuccessFloor = 6 / 10,
       deactivationMinSamples = 10\<rparr>"
  let ?cl = "\<lparr>embed = (\<lambda>u. Inl ProviderUnavailable),
       respond = (\<lambda>u c. Inr (''We close at 5'', 95 / 100)),
       cosine = (\<lambda>a b. 0), ratio = (\<lambda>a b. 0),
       bucket = (\<lambda>t s. length t + length s)\<rparr>"
  let ?store = "[seed_pattern ''org1'' ''business_hours'' [''hours'']
         [(''What are your hours?'', [1, 0])] ''We are open 9 to 5'' 1]"
  let ?utt = "''when do you close''"
  have h1: "embed ?cl ?utt = Inl ProviderUnavailable" by simp
  have h2: "EmbedCall ?utt \<in> set (o_calls (cascade ?cfg ?cl ?store 10 ''org1'' ''s1'' ?utt []))"
    by (simp add: cascade_def participates_def run_stages_def Let_def validate_def
        lexical_match_def exact_pass_def fuzzy_pass_def
        fuzzy_candidates_def outranks_def getActivePatterns_def seed_pattern_def stage1b_def
        call_embed_def semantic_match_def escalate_def call_fallback_def)
  from embedding_failure_fails_open
         [of ?cl ?utt ProviderUnavailable ?cfg ?store 10 "''org1''" "''s1''" "[]", OF h1 h2]
  show ?thesis by simp
qed

end
